theory Spec2Isabelle
  imports Main
begin

section \<open>Godown Manager: the stock-ledger bookkeeping of \<open>src/App.jsx\<close>\<close>

text \<open>
  The application is one React component over a hosted document store with five
  collections (\<open>feeds\<close>, \<open>godownStock\<close>, \<open>trucks\<close>, \<open>directTransfers\<close>, \<open>logs\<close>).
  The store is modelled as a record of lists of documents, every handler as a function
  from the store to an outcome and the store it leaves behind (to the store alone when
  the handler has no way to fail).

  Conventions of the embedding:
  \<^item> Document identifiers are opaque strings issued by the store; they are modelled as
    natural numbers handed out by a counter (\<open>nextId\<close>), so that an identifier is never
    issued twice. A collection is the list of its documents in the order in which a
    query returns them. The store orders by identifier; with the counter that is the
    order of creation, and a new document goes to the end.
  \<^item> Quantities are JavaScript numbers holding bag counts; they are modelled as
    integers, on which \<open>Number(q)\<close> and \<open>q || 0\<close> are the identity.
  \<^item> Server timestamps (\<open>createdAt\<close>, \<open>updatedAt\<close>, \<open>timestamp\<close>) are written but never
    read by any logic and are left out of the documents.
  \<^item> \<open>alert(...)\<close> followed by \<open>return\<close> is the outcome \<open>Failed e\<close>, with \<open>e\<close> named as
    the specification names the error; the store returned with it is what the handler
    had persisted up to that point.
  \<^item> \<open>updateDoc\<close> on a document that does not exist is rejected by the store; this is
    the value \<open>None\<close> of the update primitives and the error \<open>StoreIOError\<close> of the
    handlers.
\<close>

subsection \<open>Documents\<close>

type_synonym doc_id = nat

text \<open>\<open>{feedId, quantity}\<close>: an item of a truck form, and an entry of a truck's stock.\<close>

record item =
  feedId :: doc_id
  quantity :: int

text \<open>A \<open>godownStock\<close> document \<open>{id, feedId, quantity}\<close>.\<close>

record godown_doc = item +
  gid :: doc_id

text \<open>A \<open>feeds\<close> document \<open>{id, name, category, price}\<close>.\<close>

record feed =
  fid :: doc_id
  name :: string
  category :: string
  price :: int

text \<open>
  A \<open>trucks\<close> document. The collection holds both movement records
  (\<open>type\<close>, \<open>destinations\<close>, \<open>items\<close>) and onboard-stock records (\<open>stock\<close>); a field
  a document does not carry is \<open>None\<close>. The field \<open>type\<close> is named \<open>ttype\<close> here.
\<close>

record truck =
  tid :: doc_id
  truckNumber :: string
  ttype :: "string option"
  destinations :: "string list option"
  items :: "item list option"
  stock :: "item list option"

text \<open>A \<open>directTransfers\<close> document.\<close>

record directTransfer =
  xid :: doc_id
  sourceTruckNumber :: string
  destTruckNumber :: string
  xitems :: "item list"

text \<open>
  A \<open>logs\<close> document, by its \<open>action\<close>: the truck entry carries truck number, type,
  destinations and items; the load registration truck number and items; the direct
  transfer both truck numbers and items.
\<close>

datatype log_entry =
    TruckEntryLog string string "string list" "item list"
  | RegisterTruckLoadLog string "item list"
  | DirectTransferLog string string "item list"

fun action :: "log_entry \<Rightarrow> string" where
  "action (TruckEntryLog n t ds its) = ''Truck Entry''"
| "action (RegisterTruckLoadLog n its) = ''Register Truck Load''"
| "action (DirectTransferLog s d its) = ''Direct Transfer''"

record store =
  feeds :: "feed list"
  godownStock :: "godown_doc list"
  trucks :: "truck list"
  directTransfers :: "directTransfer list"
  logs :: "(doc_id \<times> log_entry) list"
  nextId :: doc_id

datatype error =
    ValidationError
  | InsufficientStockError
  | SourceTruckNotFoundError
  | InsufficientTruckStockError doc_id
  | StoreIOError

datatype outcome = Completed | Failed error

definition CATEGORIES :: "string list" where
  "CATEGORIES = [''Shrimp Feed'', ''Fish Feed Growfin'', ''Fish Feed Nutriva'']"

subsection \<open>The store's primitives\<close>

definition addDoc_feeds :: "string \<Rightarrow> string \<Rightarrow> int \<Rightarrow> store \<Rightarrow> doc_id \<times> store" where
  "addDoc_feeds n c p db =
     (nextId db,
      db\<lparr>feeds := feeds db @ [\<lparr>fid = nextId db, name = n, category = c, price = p\<rparr>],
         nextId := Suc (nextId db)\<rparr>)"

definition updateDoc_feeds :: "doc_id \<Rightarrow> (feed \<Rightarrow> feed) \<Rightarrow> store \<Rightarrow> store option" where
  "updateDoc_feeds i upd db =
     (if i \<in> set (map fid (feeds db))
      then Some (db\<lparr>feeds := map (\<lambda>d. if fid d = i then upd d else d) (feeds db)\<rparr>)
      else None)"

definition deleteDoc_feeds :: "doc_id \<Rightarrow> store \<Rightarrow> store" where
  "deleteDoc_feeds i db = db\<lparr>feeds := filter (\<lambda>d. fid d \<noteq> i) (feeds db)\<rparr>"

definition addDoc_godownStock :: "doc_id \<Rightarrow> int \<Rightarrow> store \<Rightarrow> store" where
  "addDoc_godownStock f q db =
     db\<lparr>godownStock := godownStock db @ [\<lparr>feedId = f, quantity = q, gid = nextId db\<rparr>],
        nextId := Suc (nextId db)\<rparr>"

definition updateDoc_godownStock :: "doc_id \<Rightarrow> int \<Rightarrow> store \<Rightarrow> store option" where
  "updateDoc_godownStock i q db =
     (if i \<in> set (map gid (godownStock db))
      then Some (db\<lparr>godownStock :=
                  map (\<lambda>d. if gid d = i then d\<lparr>quantity := q\<rparr> else d) (godownStock db)\<rparr>)
      else None)"

definition deleteDoc_godownStock :: "doc_id \<Rightarrow> store \<Rightarrow> store" where
  "deleteDoc_godownStock i db = db\<lparr>godownStock := filter (\<lambda>d. gid d \<noteq> i) (godownStock db)\<rparr>"

text \<open>\<open>addDoc(collection(db, "trucks"), t)\<close>: the identifier of \<open>t\<close> is the one issued.\<close>

definition addDoc_trucks :: "truck \<Rightarrow> store \<Rightarrow> store" where
  "addDoc_trucks t db =
     db\<lparr>trucks := trucks db @ [t\<lparr>tid := nextId db\<rparr>], nextId := Suc (nextId db)\<rparr>"

definition updateDoc_trucks :: "doc_id \<Rightarrow> (truck \<Rightarrow> truck) \<Rightarrow> store \<Rightarrow> store option" where
  "updateDoc_trucks i upd db =
     (if i \<in> set (map tid (trucks db))
      then Some (db\<lparr>trucks := map (\<lambda>d. if tid d = i then upd d else d) (trucks db)\<rparr>)
      else None)"

definition addDoc_directTransfers :: "string \<Rightarrow> string \<Rightarrow> item list \<Rightarrow> store \<Rightarrow> store" where
  "addDoc_directTransfers s d its db =
     db\<lparr>directTransfers := directTransfers db @
           [\<lparr>xid = nextId db, sourceTruckNumber = s, destTruckNumber = d, xitems = its\<rparr>],
        nextId := Suc (nextId db)\<rparr>"

definition addDoc_logs :: "log_entry \<Rightarrow> store \<Rightarrow> store" where
  "addDoc_logs l db = db\<lparr>logs := logs db @ [(nextId db, l)], nextId := Suc (nextId db)\<rparr>"

text \<open>\<open>getDocs(query(collection(db, "trucks"), where("truckNumber", "==", n)))\<close>.\<close>

definition query_trucks :: "string \<Rightarrow> store \<Rightarrow> truck list" where
  "query_trucks n db = filter (\<lambda>t. truckNumber t = n) (trucks db)"

subsection \<open>Warehouse ledger helpers\<close>

text \<open>
  \<open>addOrIncreaseGodown\<close> and \<open>decreaseGodown\<close> look the entry up in \<open>godown\<close>, the React
  state of the render in which the handler was created, and write to the store. The
  state variable is a \<open>const\<close> of that render: \<open>fetchAll\<close> ends in \<open>setGodown\<close>, which
  schedules a new render with new closures and leaves the running handler's \<open>godown\<close>
  as it was. The snapshot is therefore an argument of its own, next to the store; when
  the user starts a handler on a page that has caught up with the store, it is
  \<open>godownStock db\<close>.
\<close>

definition addOrIncreaseGodown ::
  "godown_doc list \<Rightarrow> doc_id \<Rightarrow> int \<Rightarrow> store \<Rightarrow> outcome \<times> store" where
  "addOrIncreaseGodown godown fId qty db =
     (case find (\<lambda>g. feedId g = fId) godown of
        Some existing \<Rightarrow>
          (case updateDoc_godownStock (gid existing) (quantity existing + qty) db of
             None \<Rightarrow> (Failed StoreIOError, db)
           | Some db' \<Rightarrow> (Completed, db'))
      | None \<Rightarrow> (Completed, addDoc_godownStock fId qty db))"

text \<open>
  \<open>decreaseGodown\<close> throws \<open>Error("Not enough godown stock")\<close>, the specification's
  \<open>InsufficientStockError\<close>, before it writes anything; the store that comes with a
  failure is the store at the moment of the throw.
\<close>

definition decreaseGodown ::
  "godown_doc list \<Rightarrow> doc_id \<Rightarrow> int \<Rightarrow> store \<Rightarrow> outcome \<times> store" where
  "decreaseGodown godown fId qty db =
     (case find (\<lambda>g. feedId g = fId) godown of
        None \<Rightarrow> (Failed InsufficientStockError, db)
      | Some existing \<Rightarrow>
          if quantity existing < qty then (Failed InsufficientStockError, db)
          else (case updateDoc_godownStock (gid existing) (quantity existing - qty) db of
                  None \<Rightarrow> (Failed StoreIOError, db)
                | Some db' \<Rightarrow> (Completed, db')))"

text \<open>The quantity the stock table shows for a feed: \<open>s ? s.quantity : 0\<close>.\<close>

definition shownQuantity :: "godown_doc list \<Rightarrow> doc_id \<Rightarrow> int" where
  "shownQuantity godown fId =
     (case find (\<lambda>g. feedId g = fId) godown of Some s \<Rightarrow> quantity s | None \<Rightarrow> 0)"

subsection \<open>Catalog administration\<close>

definition findFeed :: "feed list \<Rightarrow> doc_id \<Rightarrow> feed option" where
  "findFeed fs fId = find (\<lambda>f. fid f = fId) fs"

definition handleAddFeed :: "string \<Rightarrow> string \<Rightarrow> int \<Rightarrow> int \<Rightarrow> store \<Rightarrow> store" where
  "handleAddFeed n c p initialQty db =
     (case addDoc_feeds n c p db of
        (ref, db1) \<Rightarrow> if initialQty > 0 then addDoc_godownStock ref initialQty db1 else db1)"

text \<open>A patch \<open>{name, price, category}\<close>; \<open>None\<close> is a field the patch does not carry.\<close>

record feed_patch =
  patch_name :: "string option"
  patch_category :: "string option"
  patch_price :: "int option"

definition apply_patch :: "feed_patch \<Rightarrow> feed \<Rightarrow> feed" where
  "apply_patch p f =
     f\<lparr>name := (case patch_name p of Some n \<Rightarrow> n | None \<Rightarrow> name f),
       category := (case patch_category p of Some c \<Rightarrow> c | None \<Rightarrow> category f),
       price := (case patch_price p of Some x \<Rightarrow> x | None \<Rightarrow> price f)\<rparr>"

definition handleEditFeed :: "doc_id \<Rightarrow> feed_patch \<Rightarrow> store \<Rightarrow> outcome \<times> store" where
  "handleEditFeed fId p db =
     (case updateDoc_feeds fId (apply_patch p) db of
        None \<Rightarrow> (Failed StoreIOError, db)
      | Some db' \<Rightarrow> (Completed, db'))"

definition handleDeleteFeed :: "godown_doc list \<Rightarrow> doc_id \<Rightarrow> store \<Rightarrow> store" where
  "handleDeleteFeed godown fId db =
     fold (\<lambda>s. deleteDoc_godownStock (gid s)) (filter (\<lambda>g. feedId g = fId) godown)
       (deleteDoc_feeds fId db)"

subsection \<open>Truck movements\<close>

text \<open>
  \<open>destinations.split(",").map(s => s.trim()).filter(Boolean)\<close>. A string is the list of
  the bytes of its UTF-8 encoding. \<open>trim\<close> removes white space and line terminators
  from both ends: the characters U+0009 to U+000D, U+0020, U+00A0, U+1680, U+2000 to
  U+200A, U+2028, U+2029, U+202F, U+205F, U+3000 and U+FEFF, listed here by their bytes.
\<close>

fun split_comma :: "string \<Rightarrow> string list" where
  "split_comma [] = [[]]"
| "split_comma (c # cs) =
     (if c = CHR '','' then [] # split_comma cs
      else (case split_comma cs of w # ws \<Rightarrow> (c # w) # ws | [] \<Rightarrow> [[c]]))"

definition white_space :: "nat list list" where
  "white_space =
     [[9], [10], [11], [12], [13], [32],
      [194, 160],
      [225, 154, 128],
      [226, 128, 128], [226, 128, 129], [226, 128, 130], [226, 128, 131], [226, 128, 132],
      [226, 128, 133], [226, 128, 134], [226, 128, 135], [226, 128, 136], [226, 128, 137],
      [226, 128, 138],
      [226, 128, 168], [226, 128, 169], [226, 128, 175],
      [226, 129, 159],
      [227, 128, 128],
      [239, 187, 191]]"

text \<open>
  The number of bytes of the white-space character a string starts with, 0 when it
  starts with none, for a table of byte sequences; and the string without the white
  space it starts with.
\<close>

definition space_at_start :: "nat list list \<Rightarrow> string \<Rightarrow> nat" where
  "space_at_start table s =
     (case find (\<lambda>w. take (length w) (map of_char s) = w) table of
        Some w \<Rightarrow> length w | None \<Rightarrow> 0)"

fun drop_spaces :: "nat list list \<Rightarrow> string \<Rightarrow> string" where
  "drop_spaces table [] = []"
| "drop_spaces table (c # cs) =
     (if space_at_start table (c # cs) = 0 then c # cs
      else drop_spaces table (drop (space_at_start table (c # cs) - 1) cs))"

definition trim :: "string \<Rightarrow> string" where
  "trim s = rev (drop_spaces (map rev white_space) (rev (drop_spaces white_space s)))"

definition parse_destinations :: "string \<Rightarrow> string list" where
  "parse_destinations d =
     (if d = [] then [] else filter (\<lambda>s. s \<noteq> []) (map trim (split_comma d)))"

text \<open>
  The incoming loop: \<open>for (const it of items) await addOrIncreaseGodown(...)\<close>. A
  rejected write ends the handler there, with what was written before it.
\<close>

fun incoming_loop :: "godown_doc list \<Rightarrow> item list \<Rightarrow> store \<Rightarrow> outcome \<times> store" where
  "incoming_loop godown [] db = (Completed, db)"
| "incoming_loop godown (it # its) db =
     (case addOrIncreaseGodown godown (feedId it) (quantity it) db of
        (Failed e, db') \<Rightarrow> (Failed e, db')
      | (Completed, db') \<Rightarrow> incoming_loop godown its db')"

text \<open>
  The outgoing loop: every \<open>decreaseGodown\<close> is inside \<open>try\<close>/\<open>catch\<close>; the handler alerts
  and goes on with the next item.
\<close>

fun outgoing_loop :: "godown_doc list \<Rightarrow> item list \<Rightarrow> store \<Rightarrow> store" where
  "outgoing_loop godown [] db = db"
| "outgoing_loop godown (it # its) db =
     (case decreaseGodown godown (feedId it) (quantity it) db of
        (Failed e, db') \<Rightarrow> outgoing_loop godown its db'
      | (Completed, db') \<Rightarrow> outgoing_loop godown its db')"

definition submitTruckEntry ::
  "godown_doc list \<Rightarrow> string \<Rightarrow> string \<Rightarrow> string \<Rightarrow> item list \<Rightarrow> store \<Rightarrow> outcome \<times> store" where
  "submitTruckEntry godown truckNo type dests its db =
     (if truckNo = [] \<or> its = [] then (Failed ValidationError, db)
      else
        let docItems = map (\<lambda>i. \<lparr>feedId = feedId i, quantity = quantity i\<rparr>) its;
            docDests = parse_destinations dests;
            db1 = addDoc_trucks
                    \<lparr>tid = 0, truckNumber = truckNo, ttype = Some type,
                     destinations = Some docDests, items = Some docItems, stock = None\<rparr> db;
            r = (if type = ''incoming'' then incoming_loop godown its db1
                 else if type = ''outgoing'' then (Completed, outgoing_loop godown its db1)
                 else (Completed, db1))
        in (case r of
              (Failed e, db2) \<Rightarrow> (Failed e, db2)
            | (Completed, db2) \<Rightarrow>
                (Completed, addDoc_logs (TruckEntryLog truckNo type docDests docItems) db2)))"

text \<open>
  The entry form \<open>TruckForm\<close>, the only caller of \<open>submitTruckEntry\<close>. Its item list starts
  empty and changes by \<open>addItem\<close> and \<open>removeItem\<close> only. \<open>addItem\<close> refuses an empty feed
  selection or an empty quantity field (\<open>None\<close> here), adds the quantity to the item that
  already names the selected feed, and appends a new item otherwise. \<open>submit\<close> refuses an
  empty truck number and an empty item list and hands the items to the handler.
\<close>

definition addItem :: "doc_id option \<Rightarrow> int option \<Rightarrow> item list \<Rightarrow> item list" where
  "addItem selectedFeed qty prev =
     (case (selectedFeed, qty) of
        (Some f, Some q) \<Rightarrow>
          (case find (\<lambda>i. feedId i = f) prev of
             Some existing \<Rightarrow>
               map (\<lambda>i. if feedId i = f then i\<lparr>quantity := quantity i + q\<rparr> else i) prev
           | None \<Rightarrow> prev @ [\<lparr>feedId = f, quantity = q\<rparr>])
      | _ \<Rightarrow> prev)"

definition removeItem :: "doc_id \<Rightarrow> item list \<Rightarrow> item list" where
  "removeItem f prev = filter (\<lambda>i. feedId i \<noteq> f) prev"

datatype form_action = AddItem "doc_id option" "int option" | RemoveItem doc_id

fun formStep :: "form_action \<Rightarrow> item list \<Rightarrow> item list" where
  "formStep (AddItem selectedFeed qty) prev = addItem selectedFeed qty prev"
| "formStep (RemoveItem f) prev = removeItem f prev"

text \<open>The item list of the form after a sequence of clicks on Add and Remove.\<close>

definition formItems :: "form_action list \<Rightarrow> item list" where
  "formItems acts = fold formStep acts []"

definition TruckForm_submit ::
  "godown_doc list \<Rightarrow> string \<Rightarrow> string \<Rightarrow> string \<Rightarrow> item list \<Rightarrow> store \<Rightarrow> outcome \<times> store" where
  "TruckForm_submit godown truckNo type dests its db =
     (if truckNo = [] then (Failed ValidationError, db)
      else if its = [] then (Failed ValidationError, db)
      else submitTruckEntry godown truckNo type dests its db)"

subsection \<open>Direct transfer\<close>

definition registerSourceTruckLoad :: "string \<Rightarrow> item list \<Rightarrow> store \<Rightarrow> outcome \<times> store" where
  "registerSourceTruckLoad truckNo its db =
     (if truckNo = [] \<or> its = [] then (Failed ValidationError, db)
      else
        let newStock = map (\<lambda>i. \<lparr>feedId = feedId i, quantity = quantity i\<rparr>) its;
            r = (case query_trucks truckNo db of
                   docRef # _ \<Rightarrow>
                     updateDoc_trucks (tid docRef)
                       (\<lambda>t. t\<lparr>truckNumber := truckNo, stock := Some newStock\<rparr>) db
                 | [] \<Rightarrow>
                     Some (addDoc_trucks
                       \<lparr>tid = 0, truckNumber = truckNo, ttype = None, destinations = None,
                        items = None, stock = Some newStock\<rparr> db))
        in (case r of
              None \<Rightarrow> (Failed StoreIOError, db)
            | Some db1 \<Rightarrow> (Completed, addDoc_logs (RegisterTruckLoadLog truckNo its) db1)))"

text \<open>\<open>xs.findIndex(P)\<close>, with \<open>None\<close> for \<open>-1\<close>.\<close>

fun findIndex :: "('a \<Rightarrow> bool) \<Rightarrow> 'a list \<Rightarrow> nat option" where
  "findIndex P [] = None"
| "findIndex P (x # xs) = (if P x then Some 0 else map_option Suc (findIndex P xs))"

text \<open>
  The item loop of the transfer, on the two working copies \<open>srcStock\<close> and \<open>destStock\<close>.
  They come from two separate reads of the store, so they share nothing, also when
  both reads return the same document. The early \<open>return alert(...)\<close> is \<open>Inl\<close> with the
  offending feed.
\<close>

fun process_items :: "item list \<Rightarrow> item list \<Rightarrow> item list \<Rightarrow> doc_id + (item list \<times> item list)" where
  "process_items [] srcStock destStock = Inr (srcStock, destStock)"
| "process_items (it # its) srcStock destStock =
     (case findIndex (\<lambda>s. feedId s = feedId it) srcStock of
        None \<Rightarrow> Inl (feedId it)
      | Some sIdx \<Rightarrow>
          if quantity (srcStock ! sIdx) < quantity it then Inl (feedId it)
          else
            let srcStock' = srcStock[sIdx := (srcStock ! sIdx)
                              \<lparr>quantity := quantity (srcStock ! sIdx) - quantity it\<rparr>];
                destStock' =
                  (case findIndex (\<lambda>s. feedId s = feedId it) destStock of
                     Some dIdx \<Rightarrow> destStock[dIdx := (destStock ! dIdx)
                                   \<lparr>quantity := quantity (destStock ! dIdx) + quantity it\<rparr>]
                   | None \<Rightarrow> destStock @ [\<lparr>feedId = feedId it, quantity = quantity it\<rparr>])
            in process_items its srcStock' destStock')"

definition stockOf :: "truck \<Rightarrow> item list" where
  "stockOf t = (case stock t of Some s \<Rightarrow> s | None \<Rightarrow> [])"

definition transferFromSourceToDest ::
  "string \<Rightarrow> string \<Rightarrow> item list \<Rightarrow> store \<Rightarrow> outcome \<times> store" where
  "transferFromSourceToDest srcNo destNo its db =
     (if srcNo = [] \<or> destNo = [] \<or> its = [] then (Failed ValidationError, db)
      else (case query_trucks srcNo db of
        [] \<Rightarrow> (Failed SourceTruckNotFoundError, db)
      | srcData # _ \<Rightarrow>
          let srcStock = stockOf srcData;
              db1 = (case query_trucks destNo db of
                       _ # _ \<Rightarrow> db
                     | [] \<Rightarrow> addDoc_trucks
                         \<lparr>tid = 0, truckNumber = destNo, ttype = None, destinations = None,
                          items = None, stock = Some []\<rparr> db)
          in (case query_trucks destNo db1 of
                [] \<Rightarrow> (Failed StoreIOError, db1)
              | destData # _ \<Rightarrow>
                  (case process_items its srcStock (stockOf destData) of
                     Inl f \<Rightarrow> (Failed (InsufficientTruckStockError f), db1)
                   | Inr (srcStock', destStock') \<Rightarrow>
                       (case updateDoc_trucks (tid srcData) (\<lambda>t. t\<lparr>stock := Some srcStock'\<rparr>) db1 of
                          None \<Rightarrow> (Failed StoreIOError, db1)
                        | Some db2 \<Rightarrow>
                            (case updateDoc_trucks (tid destData)
                                    (\<lambda>t. t\<lparr>stock := Some destStock'\<rparr>) db2 of
                               None \<Rightarrow> (Failed StoreIOError, db2)
                             | Some db3 \<Rightarrow>
                                 (Completed,
                                  addDoc_logs (DirectTransferLog srcNo destNo its)
                                    (addDoc_directTransfers srcNo destNo its db3))))))))"

subsection \<open>Dashboard aggregates\<close>

text \<open>
  \<open>categoryCounts\<close> is an object keyed by category, set to 0 for the three categories
  and then increased entry by entry; it is a map here. The guard
  \<open>CATEGORIES.includes(feedDoc.category)\<close> makes sure the key is there.
\<close>

definition categoryCounts :: "feed list \<Rightarrow> godown_doc list \<Rightarrow> (string \<rightharpoonup> int)" where
  "categoryCounts fs godown =
     fold (\<lambda>s cc.
            (case findFeed fs (feedId s) of
               Some feedDoc \<Rightarrow>
                 if category feedDoc \<in> set CATEGORIES
                 then cc(category feedDoc := map_option (\<lambda>n. n + quantity s) (cc (category feedDoc)))
                 else cc
             | None \<Rightarrow> cc))
       godown
       (fold (\<lambda>c cc. cc(c \<mapsto> 0)) CATEGORIES Map.empty)"

definition totalBags :: "godown_doc list \<Rightarrow> int" where
  "totalBags godown = foldl (\<lambda>acc s. acc + quantity s) 0 godown"

subsection \<open>Notions used in the statements\<close>

text \<open>
  An entry belongs to a category when its feed is in the catalog and carries that
  category.
\<close>

definition inCategory :: "feed list \<Rightarrow> string \<Rightarrow> godown_doc \<Rightarrow> bool" where
  "inCategory fs c s =
     (case findFeed fs (feedId s) of Some feedDoc \<Rightarrow> category feedDoc = c | None \<Rightarrow> False)"

text \<open>
  The truck record a handler works on: \<open>snap.docs[0]\<close>, the first document the query by
  truck number returns, if there is one.
\<close>

definition firstMatch :: "string \<Rightarrow> store \<Rightarrow> truck option" where
  "firstMatch n db = (case query_trucks n db of [] \<Rightarrow> None | t # _ \<Rightarrow> Some t)"

text \<open>
  What the store guarantees about identifiers: within the ledger and within the truck
  collection no two documents share one, and all of them were issued by the counter.
  Theorems about writes to one document among others assume it.
\<close>

definition wf_store :: "store \<Rightarrow> bool" where
  "wf_store db =
     (distinct (map tid (trucks db)) \<and> list_all (\<lambda>t. tid t < nextId db) (trucks db) \<and>
      distinct (map gid (godownStock db)) \<and> list_all (\<lambda>g. gid g < nextId db) (godownStock db))"

text \<open>
  The quantity a stock list holds of a feed, read as the item loop reads it (at the
  first entry that names the feed), and the quantity a list of items asks of a feed.
\<close>

definition onboard :: "item list \<Rightarrow> doc_id \<Rightarrow> int" where
  "onboard st f =
     (case findIndex (\<lambda>s. feedId s = f) st of Some i \<Rightarrow> quantity (st ! i) | None \<Rightarrow> 0)"

definition requested :: "'a item_scheme list \<Rightarrow> doc_id \<Rightarrow> int" where
  "requested its f = sum_list (map quantity (filter (\<lambda>i. feedId i = f) its))"

text \<open>
  The first step of a transfer after the source has been found: the destination record
  is looked up by its number and, when there is none, created with an empty stock.
\<close>

definition emptyDest :: "string \<Rightarrow> truck" where
  "emptyDest destNo = \<lparr>tid = 0, truckNumber = destNo, ttype = None, destinations = None,
                          items = None, stock = Some []\<rparr>"

definition destResolved :: "string \<Rightarrow> store \<Rightarrow> store" where
  "destResolved destNo db =
     (case firstMatch destNo db of Some _ \<Rightarrow> db | None \<Rightarrow> addDoc_trucks (emptyDest destNo) db)"

text \<open>
  An item is covered when the ledger has an entry for its feed that holds at least the
  item's quantity: the check of \<open>decreaseGodown\<close>, negated.
\<close>

definition covered :: "godown_doc list \<Rightarrow> item \<Rightarrow> bool" where
  "covered godown it =
     (case find (\<lambda>g. feedId g = feedId it) godown of
        None \<Rightarrow> False | Some existing \<Rightarrow> quantity it \<le> quantity existing)"

text \<open>The movement record \<open>docData\<close> of a truck entry, before the store gives it an identifier.\<close>

definition movementRecord :: "string \<Rightarrow> string \<Rightarrow> string \<Rightarrow> item list \<Rightarrow> truck" where
  "movementRecord truckNo type dests its =
     \<lparr>tid = 0, truckNumber = truckNo, ttype = Some type,
      destinations = Some (parse_destinations dests), items = Some its, stock = None\<rparr>"

text \<open>
  What makes a truck document a movement record, and what it means that a later state
  has kept the movement records of an earlier one: document by document, in the same
  order, these fields are the same.
\<close>

definition movementFields ::
  "truck \<Rightarrow> doc_id \<times> string option \<times> string list option \<times> item list option" where
  "movementFields t = (tid t, ttype t, destinations t, items t)"

definition movementsKept :: "store \<Rightarrow> store \<Rightarrow> bool" where
  "movementsKept db db' =
     (map movementFields (take (length (trucks db)) (trucks db')) = map movementFields (trucks db))"

text \<open>
  The check the item loop of a transfer makes on the item at position \<open>k\<close>, said on the
  stock as it was before the loop: the source names the item's feed, and the item asks
  no more than what the source held of that feed less what the items before it have
  already taken of it.
\<close>

definition withinRemaining :: "item list \<Rightarrow> item list \<Rightarrow> nat \<Rightarrow> bool" where
  "withinRemaining srcStock its k =
     (findIndex (\<lambda>s. feedId s = feedId (its ! k)) srcStock \<noteq> None \<and>
      quantity (its ! k)
        \<le> onboard srcStock (feedId (its ! k)) - requested (take k its) (feedId (its ! k)))"

text \<open>The sum of the quantities that a list of additions \<open>(feed, quantity)\<close> gives to a feed.\<close>

definition added :: "(doc_id \<times> int) list \<Rightarrow> doc_id \<Rightarrow> int" where
  "added adds f = sum_list (map snd (filter (\<lambda>a. fst a = f) adds))"

text \<open>
  Every feed a ledger entry names carries an identifier the store has issued, and a
  later state that has the same ledger and has issued no fewer identifiers.
\<close>

definition refsIssued :: "store \<Rightarrow> bool" where
  "refsIssued db = list_all (\<lambda>g. feedId g < nextId db) (godownStock db)"

definition ledgerFrame :: "store \<Rightarrow> store \<Rightarrow> bool" where
  "ledgerFrame db db' = (godownStock db' = godownStock db \<and> nextId db \<le> nextId db')"

subsection \<open>Example stores\<close>

text \<open>One feed with five bags in the warehouse.\<close>

definition ledger_example :: store where
  "ledger_example =
     \<lparr>feeds = [\<lparr>fid = 0, name = ''F1'', category = ''Shrimp Feed'', price = 0\<rparr>],
      godownStock = [\<lparr>feedId = 0, quantity = 5, gid = 1\<rparr>],
      trucks = [], directTransfers = [], logs = [], nextId = 2\<rparr>"

text \<open>
  A catalog with a feed that has no ledger entry and a feed outside the three
  categories, and a ledger with an entry whose feed is not in the catalog.
\<close>

definition aggregate_feeds :: "feed list" where
  "aggregate_feeds =
     [\<lparr>fid = 0, name = ''F1'', category = ''Shrimp Feed'', price = 0\<rparr>,
      \<lparr>fid = 1, name = ''F2'', category = ''Fish Feed Growfin'', price = 0\<rparr>,
      \<lparr>fid = 2, name = ''F3'', category = ''Cattle Feed'', price = 0\<rparr>]"

definition aggregate_godown :: "godown_doc list" where
  "aggregate_godown =
     [\<lparr>feedId = 0, quantity = 5, gid = 3\<rparr>,
      \<lparr>feedId = 2, quantity = 7, gid = 4\<rparr>,
      \<lparr>feedId = 9, quantity = 3, gid = 5\<rparr>]"

text \<open>The empty store, and the store after \<open>registerLoad("TRK2", [(F1, 10)])\<close> on it.\<close>

definition empty_store :: store where
  "empty_store =
     \<lparr>feeds = [], godownStock = [], trucks = [], directTransfers = [], logs = [], nextId = 0\<rparr>"

definition registered_example :: store where
  "registered_example =
     snd (registerSourceTruckLoad ''TRK2'' [\<lparr>feedId = 1, quantity = 10\<rparr>] empty_store)"

text \<open>One truck, T1, with five bags of feed 1 on board.\<close>

definition transfer_example :: store where
  "transfer_example =
     \<lparr>feeds = [], godownStock = [],
      trucks = [\<lparr>tid = 0, truckNumber = ''T1'', ttype = None, destinations = None,
                items = None, stock = Some [\<lparr>feedId = 1, quantity = 5\<rparr>]\<rparr>],
      directTransfers = [], logs = [], nextId = 1\<rparr>"

text \<open>One truck, T1, with five bags of feed 1 and one bag of feed 2 on board.\<close>

definition two_feed_example :: store where
  "two_feed_example =
     \<lparr>feeds = [], godownStock = [],
      trucks = [\<lparr>tid = 0, truckNumber = ''T1'', ttype = None, destinations = None,
                items = None,
                stock = Some [\<lparr>feedId = 1, quantity = 5\<rparr>, \<lparr>feedId = 2, quantity = 1\<rparr>]\<rparr>],
      directTransfers = [], logs = [], nextId = 1\<rparr>"

section \<open>Properties\<close>

subsection \<open>Auxiliary facts about lists\<close>

lemma find_map_inv:
  "(\<And>x. P (h x) = P x) \<Longrightarrow> find P (map h xs) = map_option h (find P xs)"
  by (induction xs) auto

lemma find_Some_mem: "find P xs = Some x \<Longrightarrow> x \<in> set xs \<and> P x"
  by (induction xs) (auto split: if_splits)

subsection \<open>Warehouse decrease\<close>

text \<open>
  Claim C4. On a page that shows the store as it is, \<open>decreaseGodown(feedId, qty)\<close> fails
  with the insufficient-stock error exactly when the ledger has no entry for the feed or
  the entry holds less than \<open>qty\<close>; a failed call leaves the whole store as it was; a
  successful call sets the entry's quantity to the existing quantity minus \<open>qty\<close> and
  keeps every entry of the ledger, also one whose quantity has become zero.
\<close>

theorem decreaseGodown_spec:
  "(fst (decreaseGodown (godownStock db) f q db) = Failed InsufficientStockError)
      = (case find (\<lambda>g. feedId g = f) (godownStock db) of
           None \<Rightarrow> True | Some existing \<Rightarrow> quantity existing < q)
   \<and> (fst (decreaseGodown (godownStock db) f q db) = Failed InsufficientStockError \<longrightarrow>
        snd (decreaseGodown (godownStock db) f q db) = db)
   \<and> (\<forall>existing.
        find (\<lambda>g. feedId g = f) (godownStock db) = Some existing \<and> q \<le> quantity existing \<longrightarrow>
          fst (decreaseGodown (godownStock db) f q db) = Completed \<and>
          find (\<lambda>g. feedId g = f) (godownStock (snd (decreaseGodown (godownStock db) f q db)))
            = Some (existing\<lparr>quantity := quantity existing - q\<rparr>) \<and>
          map gid (godownStock (snd (decreaseGodown (godownStock db) f q db)))
            = map gid (godownStock db) \<and>
          map feedId (godownStock (snd (decreaseGodown (godownStock db) f q db)))
            = map feedId (godownStock db))"
  by (auto simp: decreaseGodown_def updateDoc_godownStock_def find_map_inv
         split: option.splits dest: find_Some_mem)

theorem decreaseGodown_spec_witness:
  "fst (decreaseGodown (godownStock ledger_example) 0 6 ledger_example)
     = Failed InsufficientStockError
   \<and> snd (decreaseGodown (godownStock ledger_example) 0 6 ledger_example) = ledger_example
   \<and> fst (decreaseGodown (godownStock ledger_example) 7 1 ledger_example)
     = Failed InsufficientStockError
   \<and> fst (decreaseGodown (godownStock ledger_example) 0 5 ledger_example) = Completed
   \<and> godownStock (snd (decreaseGodown (godownStock ledger_example) 0 5 ledger_example))
       = [\<lparr>feedId = 0, quantity = 0, gid = 1\<rparr>]"
  using decreaseGodown_spec [of ledger_example 0 6] decreaseGodown_spec [of ledger_example 7 1]
    decreaseGodown_spec [of ledger_example 0 5]
  by (simp add: ledger_example_def decreaseGodown_def updateDoc_godownStock_def)

subsection \<open>Dashboard aggregates\<close>

lemma totalBags_foldl:
  "foldl (\<lambda>acc s. acc + quantity s) a g = a + sum_list (map quantity g)"
  by (induction g arbitrary: a) auto

lemma categoryCounts_fold:
  "fold (\<lambda>s cc.
            (case findFeed fs (feedId s) of
               Some feedDoc \<Rightarrow>
                 if category feedDoc \<in> set CATEGORIES
                 then cc(category feedDoc := map_option (\<lambda>n. n + quantity s) (cc (category feedDoc)))
                 else cc
             | None \<Rightarrow> cc)) g cc c
   = (if c \<in> set CATEGORIES
      then map_option (\<lambda>n. n + sum_list (map quantity (filter (inCategory fs c) g))) (cc c)
      else cc c)"
proof (induction g arbitrary: cc)
  case Nil
  show ?case by (cases "cc c") auto
next
  case (Cons s g)
  show ?case
  proof (cases "findFeed fs (feedId s)")
    case None
    then have "\<not> inCategory fs c s" by (simp add: inCategory_def)
    with None show ?thesis by (simp add: Cons.IH)
  next
    case (Some feedDoc)
    then have "inCategory fs c s = (category feedDoc = c)" by (simp add: inCategory_def)
    with Some show ?thesis by (cases "cc c") (auto simp: Cons.IH)
  qed
qed

lemma categoryCounts_init:
  "fold (\<lambda>c cc. cc(c \<mapsto> 0)) CATEGORIES Map.empty c
     = (if c \<in> set CATEGORIES then Some (0::int) else None)"
  by (simp add: CATEGORIES_def)

text \<open>
  Claim C7. The dashboard's \<open>categoryCounts\<close> gives each of the three fixed categories
  the sum of the quantities of the ledger entries whose feed belongs to it, and knows no
  other category; \<open>totalBags\<close> is the sum of the quantities of all ledger entries,
  whatever their feed; and a feed that no ledger entry names contributes nothing: the
  counts are the same with and without it in the catalog.
\<close>

theorem aggregateByCategory_spec:
  "(\<forall>c \<in> set CATEGORIES.
      categoryCounts fs g c = Some (sum_list (map quantity (filter (inCategory fs c) g))))
   \<and> (\<forall>c. c \<notin> set CATEGORIES \<longrightarrow> categoryCounts fs g c = None)
   \<and> totalBags g = sum_list (map quantity g)
   \<and> (\<forall>f. (\<forall>s \<in> set g. feedId s \<noteq> fid f) \<longrightarrow>
          categoryCounts (filter (\<lambda>x. x \<noteq> f) fs) g = categoryCounts fs g)"
proof (intro conjI ballI allI impI)
  fix c assume "c \<in> set CATEGORIES"
  then show "categoryCounts fs g c = Some (sum_list (map quantity (filter (inCategory fs c) g)))"
    unfolding categoryCounts_def categoryCounts_fold by (simp add: categoryCounts_init)
next
  fix c assume "c \<notin> set CATEGORIES"
  then show "categoryCounts fs g c = None"
    unfolding categoryCounts_def categoryCounts_fold by (simp add: categoryCounts_init)
next
  show "totalBags g = sum_list (map quantity g)"
    by (simp add: totalBags_def totalBags_foldl)
next
  fix f :: feed assume none: "\<forall>s \<in> set g. feedId s \<noteq> fid f"
  have same: "findFeed (filter (\<lambda>x. x \<noteq> f) fs) i = findFeed fs i" if "i \<noteq> fid f" for i
    using that unfolding findFeed_def by (induction fs) auto
  have "filter (inCategory (filter (\<lambda>x. x \<noteq> f) fs) c) g = filter (inCategory fs c) g" for c
    by (rule filter_cong) (use none same in \<open>auto simp: inCategory_def\<close>)
  then show "categoryCounts (filter (\<lambda>x. x \<noteq> f) fs) g = categoryCounts fs g"
    unfolding categoryCounts_def by (intro ext) (simp add: categoryCounts_fold)
qed

theorem aggregateByCategory_spec_witness:
  "categoryCounts aggregate_feeds aggregate_godown ''Shrimp Feed'' = Some 5
   \<and> categoryCounts aggregate_feeds aggregate_godown ''Fish Feed Growfin'' = Some 0
   \<and> categoryCounts aggregate_feeds aggregate_godown ''Fish Feed Nutriva'' = Some 0
   \<and> categoryCounts aggregate_feeds aggregate_godown ''Cattle Feed'' = None
   \<and> totalBags aggregate_godown = 15
   \<and> categoryCounts (filter (\<lambda>x. x \<noteq> aggregate_feeds ! 1) aggregate_feeds) aggregate_godown
       = categoryCounts aggregate_feeds aggregate_godown"
proof -
  note spec = aggregateByCategory_spec [of aggregate_feeds aggregate_godown]
  have cats: "''Shrimp Feed'' \<in> set CATEGORIES" "''Fish Feed Growfin'' \<in> set CATEGORIES"
    "''Fish Feed Nutriva'' \<in> set CATEGORIES" "''Cattle Feed'' \<notin> set CATEGORIES"
    by (simp_all add: CATEGORIES_def)
  have absent: "\<forall>s \<in> set aggregate_godown. feedId s \<noteq> fid (aggregate_feeds ! 1)"
    by (simp add: aggregate_godown_def aggregate_feeds_def)
  from spec cats(1) have "categoryCounts aggregate_feeds aggregate_godown ''Shrimp Feed'' = Some 5"
    by (simp add: inCategory_def findFeed_def aggregate_godown_def aggregate_feeds_def)
  moreover from spec cats(2)
  have "categoryCounts aggregate_feeds aggregate_godown ''Fish Feed Growfin'' = Some 0"
    by (simp add: inCategory_def findFeed_def aggregate_godown_def aggregate_feeds_def)
  moreover from spec cats(3)
  have "categoryCounts aggregate_feeds aggregate_godown ''Fish Feed Nutriva'' = Some 0"
    by (simp add: inCategory_def findFeed_def aggregate_godown_def aggregate_feeds_def)
  moreover from spec cats(4)
  have "categoryCounts aggregate_feeds aggregate_godown ''Cattle Feed'' = None"
    by blast
  moreover from spec have "totalBags aggregate_godown = 15"
    by (simp add: aggregate_godown_def)
  moreover from spec absent
  have "categoryCounts (filter (\<lambda>x. x \<noteq> aggregate_feeds ! 1) aggregate_feeds) aggregate_godown
       = categoryCounts aggregate_feeds aggregate_godown"
    by blast
  ultimately show ?thesis by simp
qed

subsection \<open>The truck collection\<close>

lemma query_addDoc_trucks:
  "query_trucks n (addDoc_trucks t db)
     = query_trucks n db @ (if truckNumber t = n then [t\<lparr>tid := nextId db\<rparr>] else [])"
  by (simp add: query_trucks_def addDoc_trucks_def)

lemma wf_addDoc_trucks: "wf_store db \<Longrightarrow> wf_store (addDoc_trucks t db)"
  by (auto simp: wf_store_def addDoc_trucks_def list_all_iff)

lemma wf_addDoc_logs: "wf_store db \<Longrightarrow> wf_store (addDoc_logs l db)"
  by (auto simp: wf_store_def addDoc_logs_def list_all_iff)

lemma wf_addDoc_directTransfers: "wf_store db \<Longrightarrow> wf_store (addDoc_directTransfers s d its db)"
  by (auto simp: wf_store_def addDoc_directTransfers_def list_all_iff)

lemma wf_addDoc_godownStock: "wf_store db \<Longrightarrow> wf_store (addDoc_godownStock f q db)"
  by (auto simp: wf_store_def addDoc_godownStock_def list_all_iff)

lemma map_upd_ids:
  "(\<And>d. k (upd d) = k d) \<Longrightarrow> map (k \<circ> (\<lambda>d. if k d = i then upd d else d)) xs = map k xs"
  by (induction xs) auto

lemma wf_updateDoc_trucks:
  "wf_store db \<Longrightarrow> (\<And>d. tid (upd d) = tid d) \<Longrightarrow> updateDoc_trucks i upd db = Some db'
     \<Longrightarrow> wf_store db'"
  by (auto simp: wf_store_def updateDoc_trucks_def list_all_iff map_upd_ids split: if_splits)

lemma wf_updateDoc_godownStock:
  "wf_store db \<Longrightarrow> updateDoc_godownStock i q db = Some db' \<Longrightarrow> wf_store db'"
  by (auto simp: wf_store_def updateDoc_godownStock_def list_all_iff map_upd_ids split: if_splits)

lemma firstMatch_mem: "firstMatch n db = Some t \<Longrightarrow> t \<in> set (trucks db) \<and> truckNumber t = n"
  unfolding firstMatch_def query_trucks_def
  by (auto split: list.splits dest: filter_eq_ConsD)

lemma query_updateDoc_trucks:
  assumes "updateDoc_trucks i upd db = Some db'" "\<And>d. truckNumber (upd d) = truckNumber d"
  shows "query_trucks n db' = map (\<lambda>d. if tid d = i then upd d else d) (query_trucks n db)"
  using assms by (auto simp: updateDoc_trucks_def query_trucks_def filter_map comp_def split: if_splits intro!: arg_cong[where f="map _"] filter_cong)

lemma firstMatch_updateDoc_trucks:
  assumes "updateDoc_trucks i upd db = Some db'" "\<And>d. truckNumber (upd d) = truckNumber d"
  shows "firstMatch n db' = map_option (\<lambda>d. if tid d = i then upd d else d) (firstMatch n db)"
  unfolding firstMatch_def query_updateDoc_trucks[OF assms] by (simp split: list.splits)

lemma firstMatch_addDoc_trucks:
  "firstMatch n (addDoc_trucks t db)
     = (case firstMatch n db of Some x \<Rightarrow> Some x
        | None \<Rightarrow> if truckNumber t = n then Some (t\<lparr>tid := nextId db\<rparr>) else None)"
  by (simp add: firstMatch_def query_addDoc_trucks split: list.splits)

lemma updateDoc_trucks_Some:
  "t \<in> set (trucks db) \<Longrightarrow> \<exists>db'. updateDoc_trucks (tid t) upd db = Some db'"
  by (simp add: updateDoc_trucks_def)

lemma updateDoc_trucks_fields:
  "updateDoc_trucks i upd db = Some db' \<Longrightarrow>
     feeds db' = feeds db \<and> godownStock db' = godownStock db \<and>
     directTransfers db' = directTransfers db \<and> logs db' = logs db \<and> nextId db' = nextId db \<and>
     trucks db' = map (\<lambda>d. if tid d = i then upd d else d) (trucks db)"
  by (auto simp: updateDoc_trucks_def split: if_splits)

lemma firstMatch_destResolved:
  "firstMatch destNo (destResolved destNo db)
     = (case firstMatch destNo db of Some d \<Rightarrow> Some d
        | None \<Rightarrow> Some ((emptyDest destNo)\<lparr>tid := nextId db\<rparr>))"
  by (simp add: destResolved_def firstMatch_addDoc_trucks emptyDest_def split: option.splits)

lemma firstMatch_src_destResolved:
  "firstMatch srcNo db = Some s \<Longrightarrow> firstMatch srcNo (destResolved destNo db) = Some s"
  by (simp add: destResolved_def firstMatch_addDoc_trucks split: option.splits)

lemma transfer_unfold:
  assumes "srcNo \<noteq> []" "destNo \<noteq> []" "its \<noteq> []" "firstMatch srcNo db = Some s"
    and "firstMatch destNo (destResolved destNo db) = Some d"
  shows "transferFromSourceToDest srcNo destNo its db =
     (case process_items its (stockOf s) (stockOf d) of
        Inl f \<Rightarrow> (Failed (InsufficientTruckStockError f), destResolved destNo db)
      | Inr (srcStock', destStock') \<Rightarrow>
          (case updateDoc_trucks (tid s) (\<lambda>t. t\<lparr>stock := Some srcStock'\<rparr>) (destResolved destNo db) of
             None \<Rightarrow> (Failed StoreIOError, destResolved destNo db)
           | Some db2 \<Rightarrow>
               (case updateDoc_trucks (tid d) (\<lambda>t. t\<lparr>stock := Some destStock'\<rparr>) db2 of
                  None \<Rightarrow> (Failed StoreIOError, db2)
                | Some db3 \<Rightarrow>
                    (Completed,
                     addDoc_logs (DirectTransferLog srcNo destNo its)
                       (addDoc_directTransfers srcNo destNo its db3)))))"
  using assms
  by (auto simp: transferFromSourceToDest_def firstMatch_def destResolved_def emptyDest_def
      split: list.splits sum.splits option.splits)

lemma wf_destResolved: "wf_store db \<Longrightarrow> wf_store (destResolved destNo db)"
  by (simp add: destResolved_def wf_addDoc_trucks split: option.splits)

lemma wf_tid_inj:
  "wf_store db \<Longrightarrow> a \<in> set (trucks db) \<Longrightarrow> b \<in> set (trucks db) \<Longrightarrow> tid a = tid b \<Longrightarrow> a = b"
  by (auto simp: wf_store_def dest: inj_on_eq_iff[OF iffD1[OF distinct_map, THEN conjunct2]])

lemma transfer_success:
  assumes ne: "srcNo \<noteq> []" "destNo \<noteq> []" "its \<noteq> []"
    and src: "firstMatch srcNo db = Some s"
    and dst: "firstMatch destNo (destResolved destNo db) = Some d"
    and ok: "process_items its (stockOf s) (stockOf d) = Inr (srcStock', destStock')"
  shows "\<exists>db'. transferFromSourceToDest srcNo destNo its db = (Completed, db') \<and>
      firstMatch srcNo db' = Some (if tid s = tid d then s\<lparr>stock := Some destStock'\<rparr>
                                   else s\<lparr>stock := Some srcStock'\<rparr>) \<and>
      firstMatch destNo db' = Some (d\<lparr>stock := Some destStock'\<rparr>) \<and>
      directTransfers db' = directTransfers db @
        [\<lparr>xid = nextId (destResolved destNo db), sourceTruckNumber = srcNo,
          destTruckNumber = destNo, xitems = its\<rparr>] \<and>
      logs db' = logs db @
        [(Suc (nextId (destResolved destNo db)), DirectTransferLog srcNo destNo its)] \<and>
      feeds db' = feeds db \<and> godownStock db' = godownStock db"
proof -
  let ?db1 = "destResolved destNo db"
  have src1: "firstMatch srcNo ?db1 = Some s"
    using src by (rule firstMatch_src_destResolved)
  from src1 have s_in: "s \<in> set (trucks ?db1)" by (simp add: firstMatch_mem)
  from dst have d_in: "d \<in> set (trucks ?db1)" by (simp add: firstMatch_mem)
  obtain db2 where u1: "updateDoc_trucks (tid s) (\<lambda>t. t\<lparr>stock := Some srcStock'\<rparr>) ?db1 = Some db2"
    using updateDoc_trucks_Some[OF s_in] by blast
  have "tid d \<in> set (map tid (trucks db2))"
    using d_in updateDoc_trucks_fields[OF u1] by (force simp: image_iff)
  then obtain db3 where u2: "updateDoc_trucks (tid d) (\<lambda>t. t\<lparr>stock := Some destStock'\<rparr>) db2 = Some db3"
    by (auto simp: updateDoc_trucks_def)
  let ?db' = "addDoc_logs (DirectTransferLog srcNo destNo its)
                (addDoc_directTransfers srcNo destNo its db3)"
  have res: "transferFromSourceToDest srcNo destNo its db = (Completed, ?db')"
    by (simp add: transfer_unfold[OF ne src dst] ok u1 u2)
  have fm: "firstMatch n ?db' = firstMatch n db3" for n
    by (simp add: firstMatch_def query_trucks_def addDoc_logs_def addDoc_directTransfers_def)
  have fm3: "firstMatch n db3 =
      map_option (\<lambda>x. if tid x = tid d then x\<lparr>stock := Some destStock'\<rparr> else x)
        (map_option (\<lambda>x. if tid x = tid s then x\<lparr>stock := Some srcStock'\<rparr> else x)
           (firstMatch n ?db1))" for n
    by (simp add: firstMatch_updateDoc_trucks[OF u2] firstMatch_updateDoc_trucks[OF u1])
  have other: "feeds db3 = feeds db \<and> godownStock db3 = godownStock db \<and>
      directTransfers db3 = directTransfers db \<and> logs db3 = logs db \<and> nextId db3 = nextId ?db1"
    using updateDoc_trucks_fields[OF u1] updateDoc_trucks_fields[OF u2]
    by (simp add: destResolved_def addDoc_trucks_def split: option.splits)
  show ?thesis
    apply (rule exI[of _ ?db'])
    apply (simp add: res fm fm3 src1 dst)
    apply (simp add: addDoc_logs_def addDoc_directTransfers_def other)
    done
qed


subsection \<open>A transfer between two trucks\<close>

text \<open>
  Claim C5. In a store where the source truck's record holds the stock \<open>[(f, q)]\<close> and no
  record carries the destination's number, \<open>transfer(src, dest, [(f, a)])\<close> with \<open>a \<le> q\<close>
  completes, leaves the source record with the stock \<open>[(f, q - a)]\<close> and the new
  destination record with \<open>[(f, a)]\<close>, and appends exactly one direct-transfer record and
  one log entry with the action \<open>Direct Transfer\<close>. The specification's scenario is
  \<open>q = 10\<close>, \<open>a = 4\<close> on the trucks TRK2 and TRK3.
\<close>

theorem transfer_end_to_end:
  assumes "wf_store db" and "srcNo \<noteq> []" and "destNo \<noteq> []"
    and "firstMatch srcNo db = Some s" and "stock s = Some [\<lparr>feedId = f, quantity = q\<rparr>]"
    and "firstMatch destNo db = None" and "a \<le> q"
  shows "fst (transferFromSourceToDest srcNo destNo [\<lparr>feedId = f, quantity = a\<rparr>] db) = Completed \<and>
     map_option stockOf (firstMatch srcNo
         (snd (transferFromSourceToDest srcNo destNo [\<lparr>feedId = f, quantity = a\<rparr>] db)))
       = Some [\<lparr>feedId = f, quantity = q - a\<rparr>] \<and>
     map_option stockOf (firstMatch destNo
         (snd (transferFromSourceToDest srcNo destNo [\<lparr>feedId = f, quantity = a\<rparr>] db)))
       = Some [\<lparr>feedId = f, quantity = a\<rparr>] \<and>
     directTransfers (snd (transferFromSourceToDest srcNo destNo [\<lparr>feedId = f, quantity = a\<rparr>] db))
       = directTransfers db @
           [\<lparr>xid = Suc (nextId db), sourceTruckNumber = srcNo, destTruckNumber = destNo,
             xitems = [\<lparr>feedId = f, quantity = a\<rparr>]\<rparr>] \<and>
     logs (snd (transferFromSourceToDest srcNo destNo [\<lparr>feedId = f, quantity = a\<rparr>] db))
       = logs db @
           [(Suc (Suc (nextId db)), DirectTransferLog srcNo destNo [\<lparr>feedId = f, quantity = a\<rparr>])] \<and>
     action (DirectTransferLog srcNo destNo [\<lparr>feedId = f, quantity = a\<rparr>]) = ''Direct Transfer''"
proof -
  let ?its = "[\<lparr>feedId = f, quantity = a\<rparr>]"
  let ?d = "(emptyDest destNo)\<lparr>tid := nextId db\<rparr>"
  have dst: "firstMatch destNo (destResolved destNo db) = Some ?d"
    using assms(6) by (simp add: firstMatch_destResolved)
  have ok: "process_items ?its (stockOf s) (stockOf ?d)
              = Inr ([\<lparr>feedId = f, quantity = q - a\<rparr>], [\<lparr>feedId = f, quantity = a\<rparr>])"
    using assms(5,7) by (simp add: stockOf_def emptyDest_def)
  have "s \<in> set (trucks db)" using assms(4) by (simp add: firstMatch_mem)
  with assms(1) have neq: "tid s \<noteq> tid ?d"
    by (auto simp: wf_store_def list_all_iff)
  have nx: "nextId (destResolved destNo db) = Suc (nextId db)"
    using assms(6) by (simp add: destResolved_def addDoc_trucks_def)
  from transfer_success[OF assms(2,3) _ assms(4) dst ok] neq nx
  show ?thesis by (auto simp: stockOf_def)
qed

theorem transfer_end_to_end_witness:
  "fst (transferFromSourceToDest ''TRK2'' ''TRK3'' [\<lparr>feedId = 1, quantity = 4\<rparr>] registered_example)
     = Completed \<and>
   map_option stockOf (firstMatch ''TRK2''
       (snd (transferFromSourceToDest ''TRK2'' ''TRK3'' [\<lparr>feedId = 1, quantity = 4\<rparr>]
          registered_example)))
     = Some [\<lparr>feedId = 1, quantity = 6\<rparr>] \<and>
   map_option stockOf (firstMatch ''TRK3''
       (snd (transferFromSourceToDest ''TRK2'' ''TRK3'' [\<lparr>feedId = 1, quantity = 4\<rparr>]
          registered_example)))
     = Some [\<lparr>feedId = 1, quantity = 4\<rparr>] \<and>
   directTransfers
       (snd (transferFromSourceToDest ''TRK2'' ''TRK3'' [\<lparr>feedId = 1, quantity = 4\<rparr>]
          registered_example))
     = [\<lparr>xid = 3, sourceTruckNumber = ''TRK2'', destTruckNumber = ''TRK3'',
         xitems = [\<lparr>feedId = 1, quantity = 4\<rparr>]\<rparr>] \<and>
   map (action \<circ> snd) (logs
       (snd (transferFromSourceToDest ''TRK2'' ''TRK3'' [\<lparr>feedId = 1, quantity = 4\<rparr>]
          registered_example)))
     = [''Register Truck Load'', ''Direct Transfer'']"
proof -
  have reg: "registered_example =
      \<lparr>feeds = [], godownStock = [],
       trucks = [\<lparr>tid = 0, truckNumber = ''TRK2'', ttype = None, destinations = None,
                 items = None, stock = Some [\<lparr>feedId = 1, quantity = 10\<rparr>]\<rparr>],
       directTransfers = [],
       logs = [(1, RegisterTruckLoadLog ''TRK2'' [\<lparr>feedId = 1, quantity = 10\<rparr>])],
       nextId = 2\<rparr>"
    by (simp add: registered_example_def registerSourceTruckLoad_def empty_store_def
        query_trucks_def addDoc_trucks_def addDoc_logs_def)
  have wf: "wf_store registered_example"
    by (simp add: reg wf_store_def)
  have src: "firstMatch ''TRK2'' registered_example =
      Some \<lparr>tid = 0, truckNumber = ''TRK2'', ttype = None, destinations = None,
            items = None, stock = Some [\<lparr>feedId = 1, quantity = 10\<rparr>]\<rparr>"
    by (simp add: reg firstMatch_def query_trucks_def)
  have dst: "firstMatch ''TRK3'' registered_example = None"
    by (simp add: reg firstMatch_def query_trucks_def)
  from transfer_end_to_end [OF wf _ _ src _ dst, of 1 10 4]
  show ?thesis by (simp add: stockOf_def reg)
qed

subsection \<open>Registering a truck load\<close>

lemma item_copy: "map (\<lambda>i. \<lparr>feedId = feedId i, quantity = quantity i\<rparr>) (its :: item list) = its"
  by (induction its) auto

lemma register_step:
  assumes wf: "wf_store db" and ne: "truckNo \<noteq> []" "its \<noteq> []"
  shows "fst (registerSourceTruckLoad truckNo its db) = Completed"
    and "wf_store (snd (registerSourceTruckLoad truckNo its db))"
    and "firstMatch truckNo db = Some t \<Longrightarrow>
           firstMatch truckNo (snd (registerSourceTruckLoad truckNo its db)) = Some (t\<lparr>stock := Some its\<rparr>)
           \<and> map tid (trucks (snd (registerSourceTruckLoad truckNo its db))) = map tid (trucks db)"
    and "firstMatch truckNo db = None \<Longrightarrow>
           trucks (snd (registerSourceTruckLoad truckNo its db)) = trucks db @
             [\<lparr>tid = nextId db, truckNumber = truckNo, ttype = None, destinations = None,
               items = None, stock = Some its\<rparr>]"
    and "map snd (logs (snd (registerSourceTruckLoad truckNo its db)))
           = map snd (logs db) @ [RegisterTruckLoadLog truckNo its]"
proof -
  let ?upd = "\<lambda>t. t\<lparr>truckNumber := truckNo, stock := Some its\<rparr>"
  show "fst (registerSourceTruckLoad truckNo its db) = Completed"
    using ne
    by (auto simp: registerSourceTruckLoad_def Let_def updateDoc_trucks_def query_trucks_def
        split: list.splits option.splits dest!: filter_eq_ConsD)
  show "wf_store (snd (registerSourceTruckLoad truckNo its db))"
    using ne wf
    by (auto simp: registerSourceTruckLoad_def Let_def 
        split: list.splits option.splits intro!: wf_addDoc_logs wf_addDoc_trucks
        elim!: wf_updateDoc_trucks[rotated 2])
  show "map snd (logs (snd (registerSourceTruckLoad truckNo its db)))
           = map snd (logs db) @ [RegisterTruckLoadLog truckNo its]"
    using ne
    by (auto simp: registerSourceTruckLoad_def Let_def updateDoc_trucks_def query_trucks_def
        addDoc_logs_def addDoc_trucks_def
        split: list.splits option.splits dest!: filter_eq_ConsD)
  show "trucks (snd (registerSourceTruckLoad truckNo its db)) = trucks db @
             [\<lparr>tid = nextId db, truckNumber = truckNo, ttype = None, destinations = None,
               items = None, stock = Some its\<rparr>]" if "firstMatch truckNo db = None"
    using ne that
    by (auto simp: registerSourceTruckLoad_def firstMatch_def item_copy addDoc_logs_def addDoc_trucks_def
        split: list.splits)
  show "firstMatch truckNo (snd (registerSourceTruckLoad truckNo its db)) = Some (t\<lparr>stock := Some its\<rparr>)
           \<and> map tid (trucks (snd (registerSourceTruckLoad truckNo its db))) = map tid (trucks db)"
    if m: "firstMatch truckNo db = Some t"
  proof -
    from m have t_in: "t \<in> set (trucks db)" and tn: "truckNumber t = truckNo"
      by (simp_all add: firstMatch_mem)
    obtain db1 where u: "updateDoc_trucks (tid t) ?upd db = Some db1"
      using updateDoc_trucks_Some[OF t_in] by blast
    have r: "registerSourceTruckLoad truckNo its db
               = (Completed, addDoc_logs (RegisterTruckLoadLog truckNo its) db1)"
      using ne m u by (auto simp: registerSourceTruckLoad_def firstMatch_def item_copy split: list.splits)
    have "updateDoc_trucks (tid t) ?upd db = updateDoc_trucks (tid t) (\<lambda>x. x\<lparr>stock := Some its\<rparr>) db"
      unfolding updateDoc_trucks_def using wf_tid_inj[OF wf _ t_in] tn by auto
    with u have u': "updateDoc_trucks (tid t) (\<lambda>x. x\<lparr>stock := Some its\<rparr>) db = Some db1" by simp
    have "firstMatch truckNo (addDoc_logs (RegisterTruckLoadLog truckNo its) db1) = firstMatch truckNo db1"
      by (simp add: firstMatch_def query_trucks_def addDoc_logs_def)
    also have "\<dots> = Some (t\<lparr>stock := Some its\<rparr>)"
      by (simp add: firstMatch_updateDoc_trucks[OF u'] m)
    finally show ?thesis
      using updateDoc_trucks_fields[OF u'] by (simp add: r addDoc_logs_def map_upd_ids)
  qed
qed

text \<open>
  Claim C9. \<open>registerLoad(truckNumber, items)\<close> with a truck number and at least one
  item completes; when a record matches the number, the first match keeps its place and
  identifier and its stock becomes exactly the supplied items, whatever it was before;
  when none matches, one new record with that stock is appended. Registering a second
  list for the same truck therefore leaves exactly the second list, in the same record.
\<close>

theorem registerLoad_overwrites:
  assumes "wf_store db" and "truckNo \<noteq> []" and "its \<noteq> []" and "its2 \<noteq> []"
  shows "let db1 = snd (registerSourceTruckLoad truckNo its db);
             db2 = snd (registerSourceTruckLoad truckNo its2 db1)
         in fst (registerSourceTruckLoad truckNo its db) = Completed \<and>
            (\<forall>t. firstMatch truckNo db = Some t \<longrightarrow>
                 firstMatch truckNo db1 = Some (t\<lparr>stock := Some its\<rparr>) \<and>
                 map tid (trucks db1) = map tid (trucks db)) \<and>
            (firstMatch truckNo db = None \<longrightarrow>
                 trucks db1 = trucks db @
                   [\<lparr>tid = nextId db, truckNumber = truckNo, ttype = None, destinations = None,
                     items = None, stock = Some its\<rparr>]) \<and>
            map_option stockOf (firstMatch truckNo db1) = Some its \<and>
            map_option stockOf (firstMatch truckNo db2) = Some its2 \<and>
            map tid (trucks db2) = map tid (trucks db1)"
proof -
  let ?db1 = "snd (registerSourceTruckLoad truckNo its db)"
  let ?db2 = "snd (registerSourceTruckLoad truckNo its2 ?db1)"
  note step = register_step[OF assms(1,2,3)]
  have wf1: "wf_store ?db1" by (rule step(2))
  note step2 = register_step[OF wf1 assms(2,4)]
  have found: "\<exists>t. firstMatch truckNo ?db1 = Some t \<and> stockOf t = its"
  proof (cases "firstMatch truckNo db")
    case None
    from step(4)[OF None] None show ?thesis
      by (auto simp: firstMatch_def query_trucks_def stockOf_def split: list.splits)
  next
    case (Some t)
    from step(3)[OF Some] show ?thesis by (simp add: stockOf_def)
  qed
  then obtain t1 where t1: "firstMatch truckNo ?db1 = Some t1" "stockOf t1 = its" by blast
  from step2(3)[OF t1(1)] have second: "map_option stockOf (firstMatch truckNo ?db2) = Some its2"
    "map tid (trucks ?db2) = map tid (trucks ?db1)"
    by (simp_all add: stockOf_def)
  show ?thesis
    unfolding Let_def using step(1) step(3) step(4) t1 second by simp
qed

theorem registerLoad_overwrites_witness:
  "trucks (snd (registerSourceTruckLoad ''TRK2'' [\<lparr>feedId = 1, quantity = 10\<rparr>] empty_store))
     = [\<lparr>tid = 0, truckNumber = ''TRK2'', ttype = None, destinations = None,
         items = None, stock = Some [\<lparr>feedId = 1, quantity = 10\<rparr>]\<rparr>] \<and>
   map_option stockOf (firstMatch ''TRK2''
       (snd (registerSourceTruckLoad ''TRK2'' [\<lparr>feedId = 2, quantity = 5\<rparr>] registered_example)))
     = Some [\<lparr>feedId = 2, quantity = 5\<rparr>] \<and>
   map tid (trucks
       (snd (registerSourceTruckLoad ''TRK2'' [\<lparr>feedId = 2, quantity = 5\<rparr>] registered_example)))
     = [0]"
proof -
  have wf0: "wf_store empty_store"
    by (simp add: wf_store_def empty_store_def)
  have none: "firstMatch ''TRK2'' empty_store = None"
    by (simp add: firstMatch_def query_trucks_def empty_store_def)
  have reg: "registered_example =
      \<lparr>feeds = [], godownStock = [],
       trucks = [\<lparr>tid = 0, truckNumber = ''TRK2'', ttype = None, destinations = None,
                 items = None, stock = Some [\<lparr>feedId = 1, quantity = 10\<rparr>]\<rparr>],
       directTransfers = [],
       logs = [(1, RegisterTruckLoadLog ''TRK2'' [\<lparr>feedId = 1, quantity = 10\<rparr>])],
       nextId = 2\<rparr>"
    by (simp add: registered_example_def registerSourceTruckLoad_def empty_store_def
        query_trucks_def addDoc_trucks_def addDoc_logs_def)
  have wf1: "wf_store registered_example"
    by (simp add: reg wf_store_def)
  have some: "firstMatch ''TRK2'' registered_example =
      Some \<lparr>tid = 0, truckNumber = ''TRK2'', ttype = None, destinations = None,
            items = None, stock = Some [\<lparr>feedId = 1, quantity = 10\<rparr>]\<rparr>"
    by (simp add: reg firstMatch_def query_trucks_def)
  from registerLoad_overwrites
         [OF wf0, of "''TRK2''" "[\<lparr>feedId = 1, quantity = 10\<rparr>]" "[\<lparr>feedId = 2, quantity = 5\<rparr>]"]
    none
  have a: "trucks (snd (registerSourceTruckLoad ''TRK2'' [\<lparr>feedId = 1, quantity = 10\<rparr>] empty_store))
     = [\<lparr>tid = 0, truckNumber = ''TRK2'', ttype = None, destinations = None,
         items = None, stock = Some [\<lparr>feedId = 1, quantity = 10\<rparr>]\<rparr>]"
    by (simp add: Let_def empty_store_def)
  note second = registerLoad_overwrites
         [OF wf1, of "''TRK2''" "[\<lparr>feedId = 2, quantity = 5\<rparr>]" "[\<lparr>feedId = 2, quantity = 5\<rparr>]",
          unfolded Let_def]
  from second some
  have b: "map_option stockOf (firstMatch ''TRK2''
       (snd (registerSourceTruckLoad ''TRK2'' [\<lparr>feedId = 2, quantity = 5\<rparr>] registered_example)))
     = Some [\<lparr>feedId = 2, quantity = 5\<rparr>]"
    by (simp add: stockOf_def)
  from second some
  have "map tid (trucks
       (snd (registerSourceTruckLoad ''TRK2'' [\<lparr>feedId = 2, quantity = 5\<rparr>] registered_example)))
     = map tid (trucks registered_example)"
    by simp
  also have "\<dots> = [0]" by (simp add: reg)
  finally have c: "map tid (trucks
       (snd (registerSourceTruckLoad ''TRK2'' [\<lparr>feedId = 2, quantity = 5\<rparr>] registered_example)))
     = [0]" .
  from a b c show ?thesis by simp
qed

subsection \<open>The item loop of a transfer\<close>

lemma findIndex_Some:
  "findIndex P xs = Some i \<Longrightarrow> i < length xs \<and> P (xs ! i) \<and> (\<forall>j<i. \<not> P (xs ! j))"
proof (induction xs arbitrary: i)
  case Nil
  then show ?case by simp
next
  case (Cons x xs)
  show ?case
  proof (cases "P x")
    case True
    with Cons.prems show ?thesis by simp
  next
    case False
    with Cons.prems obtain k where k: "findIndex P xs = Some k" "i = Suc k" by auto
    from Cons.IH[OF k(1)] False k(2) show ?thesis
      by (auto simp: nth_Cons split: nat.splits)
  qed
qed

lemma findIndex_None: "(findIndex P xs = None) = (\<forall>x \<in> set xs. \<not> P x)"
  by (induction xs) auto

lemma findIndex_feed_map:
  "map feedId ys = map feedId xs \<Longrightarrow>
     findIndex (\<lambda>s. feedId s = f) ys = findIndex (\<lambda>s. feedId s = f) xs"
proof (induction xs arbitrary: ys)
  case Nil
  then show ?case by simp
next
  case (Cons x xs)
  then obtain y ys' where "ys = y # ys'" "feedId y = feedId x" "map feedId ys' = map feedId xs"
    by (cases ys) auto
  with Cons.IH show ?case by simp
qed

lemma feedId_list_update:
  "map feedId (st[i := (st ! i)\<lparr>quantity := q\<rparr>]) = map feedId st"
proof (cases "i < length st")
  case True
  then have "(map feedId st)[i := feedId (st ! i)] = map feedId st"
    by (metis list_update_id nth_map)
  then show ?thesis by (simp add: map_update)
next
  case False
  then show ?thesis by (simp add: list_update_beyond)
qed

lemma onboard_update:
  assumes "findIndex (\<lambda>s. feedId s = g) st = Some i"
  shows "onboard (st[i := (st ! i)\<lparr>quantity := q\<rparr>]) f = (if f = g then q else onboard st f)"
proof -
  let ?st' = "st[i := (st ! i)\<lparr>quantity := q\<rparr>]"
  from findIndex_Some[OF assms] have i: "i < length st" "feedId (st ! i) = g" by auto
  have same: "findIndex (\<lambda>s. feedId s = f) ?st' = findIndex (\<lambda>s. feedId s = f) st"
    by (rule findIndex_feed_map) (rule feedId_list_update)
  show ?thesis
  proof (cases "findIndex (\<lambda>s. feedId s = f) st")
    case None
    with assms have "f \<noteq> g" by auto
    with None same show ?thesis by (simp add: onboard_def)
  next
    case (Some j)
    from findIndex_Some[OF Some] have j: "j < length st" "feedId (st ! j) = f" by auto
    show ?thesis
    proof (cases "f = g")
      case True
      with Some assms have "j = i" by simp
      with True Some same i show ?thesis by (simp add: onboard_def)
    next
      case False
      with i j have "j \<noteq> i" by auto
      with False Some same show ?thesis by (simp add: onboard_def)
    qed
  qed
qed

lemma onboard_append:
  assumes "findIndex (\<lambda>s. feedId s = g) st = None"
  shows "onboard (st @ [\<lparr>feedId = g, quantity = q\<rparr>]) f = (if f = g then q else onboard st f)"
  using assms unfolding onboard_def
proof (induction st)
  case Nil
  then show ?case by simp
next
  case (Cons x st)
  then show ?case by (auto split: option.splits if_splits)
qed

lemma onboard_absent: "findIndex (\<lambda>s. feedId s = f) st = None \<Longrightarrow> onboard st f = 0"
  by (simp add: onboard_def)

lemma requested_Cons:
  "requested (it # its) f = (if feedId it = f then quantity it else 0) + requested its f"
  by (simp add: requested_def)

lemma process_items_dest_irrelevant:
  "process_items its ss ds = Inl f \<Longrightarrow> process_items its ss ds' = Inl f"
proof (induction its arbitrary: ss ds ds')
  case Nil
  then show ?case by simp
next
  case (Cons it its)
  then show ?case
    by (auto simp: Let_def split: option.splits if_splits)
qed

lemma process_items_effect:
  "process_items its ss ds = Inr (ss', ds') \<Longrightarrow>
     map feedId ss' = map feedId ss \<and>
     (\<forall>f. onboard ss' f = onboard ss f - requested its f) \<and>
     (\<forall>f. onboard ds' f = onboard ds f + requested its f) \<and>
     set (map feedId its) \<subseteq> set (map feedId ss) \<and>
     (set (map feedId its) \<subseteq> set (map feedId ds) \<longrightarrow> map feedId ds' = map feedId ds)"
proof (induction its arbitrary: ss ds)
  case Nil
  then show ?case by (simp add: requested_def)
next
  case (Cons it its)
  from Cons.prems obtain sIdx where sIdx: "findIndex (\<lambda>s. feedId s = feedId it) ss = Some sIdx"
    by (auto split: option.splits)
  let ?ss1 = "ss[sIdx := (ss ! sIdx)\<lparr>quantity := quantity (ss ! sIdx) - quantity it\<rparr>]"
  let ?ds1 = "(case findIndex (\<lambda>s. feedId s = feedId it) ds of
                 Some dIdx \<Rightarrow> ds[dIdx := (ds ! dIdx)\<lparr>quantity := quantity (ds ! dIdx) + quantity it\<rparr>]
               | None \<Rightarrow> ds @ [\<lparr>feedId = feedId it, quantity = quantity it\<rparr>])"
  from Cons.prems sIdx have rest: "process_items its ?ss1 ?ds1 = Inr (ss', ds')"
    by (auto simp: Let_def split: if_splits)
  note IH = Cons.IH[OF rest]
  have s_feeds: "map feedId ?ss1 = map feedId ss" by (rule feedId_list_update)
  have s_on: "onboard ?ss1 f = onboard ss f - (if feedId it = f then quantity it else 0)" for f
    using onboard_update[OF sIdx, of "quantity (ss ! sIdx) - quantity it" f] sIdx
    by (auto simp: onboard_def)
  have d_on: "onboard ?ds1 f = onboard ds f + (if feedId it = f then quantity it else 0)" for f
  proof (cases "findIndex (\<lambda>s. feedId s = feedId it) ds")
    case None
    then show ?thesis using onboard_append[OF None, of "quantity it" f] onboard_absent[OF None]
      by auto
  next
    case (Some dIdx)
    then show ?thesis
      using onboard_update[OF Some, of "quantity (ds ! dIdx) + quantity it" f]
      by (auto simp: onboard_def)
  qed
  have d_feeds: "map feedId ?ds1 = map feedId ds" if "feedId it \<in> set (map feedId ds)"
  proof (cases "findIndex (\<lambda>s. feedId s = feedId it) ds")
    case None
    with that show ?thesis by (auto simp: findIndex_None)
  next
    case (Some dIdx)
    then show ?thesis by (simp add: feedId_list_update)
  qed
  from findIndex_Some[OF sIdx] have it_in: "feedId it \<in> set (map feedId ss)"
    by (metis (mono_tags, lifting) image_eqI nth_mem set_map)
  show ?case
  proof (intro conjI allI impI)
    show "map feedId ss' = map feedId ss" using IH s_feeds by simp
    show "onboard ss' f = onboard ss f - requested (it # its) f" for f
      using IH s_on[of f] by (simp add: requested_Cons)
    show "onboard ds' f = onboard ds f + requested (it # its) f" for f
      using IH d_on[of f] by (simp add: requested_Cons)
    show "set (map feedId (it # its)) \<subseteq> set (map feedId ss)"
      using IH s_feeds it_in by simp
    show "map feedId ds' = map feedId ds"
      if sub: "set (map feedId (it # its)) \<subseteq> set (map feedId ds)"
    proof -
      from sub have a: "feedId it \<in> set (map feedId ds)" by simp
      note d1 = d_feeds[OF a]
      from sub d1 have "set (map feedId its) \<subseteq> set (map feedId ?ds1)" by simp
      with IH have "map feedId ds' = map feedId ?ds1" by blast
      with d1 show ?thesis by simp
    qed
  qed
qed

lemma dest_exists: "\<exists>d. firstMatch destNo (destResolved destNo db) = Some d"
  by (simp add: firstMatch_destResolved split: option.splits)

lemma transfer_outcome_validation:
  assumes "srcNo \<noteq> []" "destNo \<noteq> []" "its \<noteq> []" "firstMatch srcNo db = Some s"
  shows "(fst (transferFromSourceToDest srcNo destNo its db) = Failed (InsufficientTruckStockError f))
           = (process_items its (stockOf s) dsa = Inl f)"
proof -
  obtain d where d: "firstMatch destNo (destResolved destNo db) = Some d"
    using dest_exists by blast
  have "(fst (transferFromSourceToDest srcNo destNo its db) = Failed (InsufficientTruckStockError f))
           = (process_items its (stockOf s) (stockOf d) = Inl f)"
    unfolding transfer_unfold[OF assms d]
    by (auto split: sum.splits option.splits)
  also have "\<dots> = (process_items its (stockOf s) dsa = Inl f)"
    using process_items_dest_irrelevant by blast
  finally show ?thesis .
qed

lemma process_items_two:
  assumes "findIndex (\<lambda>s. feedId s = f) ss = Some i" "quantity (ss ! i) = q"
  shows "(process_items [\<lparr>feedId = f, quantity = a\<rparr>, \<lparr>feedId = f, quantity = b\<rparr>] ss ds = Inl g)
           = (g = f \<and> (q < a \<or> q - a < b))"
    and "(process_items [\<lparr>feedId = f, quantity = a\<rparr>] ss ds = Inl g) = (g = f \<and> q < a)"
proof -
  let ?ss1 = "ss[i := (ss ! i)\<lparr>quantity := q - a\<rparr>]"
  from findIndex_Some[OF assms(1)] have i: "i < length ss" by simp
  have idx: "findIndex (\<lambda>s. feedId s = f) ?ss1 = Some i"
    using findIndex_feed_map[OF feedId_list_update[where st = ss and i = i and q = "q - a"],
        where f = f] assms(1) by simp
  have q1: "quantity (?ss1 ! i) = q - a" using i by simp
  show "(process_items [\<lparr>feedId = f, quantity = a\<rparr>] ss ds = Inl g) = (g = f \<and> q < a)"
    using assms by (auto simp: Let_def)
  show "(process_items [\<lparr>feedId = f, quantity = a\<rparr>, \<lparr>feedId = f, quantity = b\<rparr>] ss ds = Inl g)
           = (g = f \<and> (q < a \<or> q - a < b))"
    using assms idx q1 by (auto simp: Let_def)
qed

lemma first_failure_shift:
  assumes "P 0"
  shows "(\<exists>k<Suc n. (\<forall>j<k. P j) \<and> \<not> P k \<and> Q k)
           = (\<exists>k<n. (\<forall>j<k. P (Suc j)) \<and> \<not> P (Suc k) \<and> Q (Suc k))"
proof
  assume "\<exists>k<Suc n. (\<forall>j<k. P j) \<and> \<not> P k \<and> Q k"
  then obtain k where k: "k < Suc n" "\<forall>j<k. P j" "\<not> P k" "Q k" by blast
  with assms obtain k' where "k = Suc k'" by (cases k) auto
  with k show "\<exists>k<n. (\<forall>j<k. P (Suc j)) \<and> \<not> P (Suc k) \<and> Q (Suc k)"
    by (intro exI[of _ k']) auto
next
  assume "\<exists>k<n. (\<forall>j<k. P (Suc j)) \<and> \<not> P (Suc k) \<and> Q (Suc k)"
  then obtain k where k: "k < n" "\<forall>j<k. P (Suc j)" "\<not> P (Suc k)" "Q (Suc k)" by blast
  have "\<forall>j<Suc k. P j"
  proof (intro allI impI)
    fix j assume "j < Suc k"
    then show "P j" using assms k(2) by (cases j) auto
  qed
  with k show "\<exists>k<Suc n. (\<forall>j<k. P j) \<and> \<not> P k \<and> Q k"
    by (intro exI[of _ "Suc k"]) auto
qed

lemma first_failure_zero:
  assumes "\<not> P 0"
  shows "(\<exists>k<Suc n. (\<forall>j<k. P j) \<and> \<not> P k \<and> Q k) = Q 0"
proof
  assume "\<exists>k<Suc n. (\<forall>j<k. P j) \<and> \<not> P k \<and> Q k"
  then obtain k where k: "\<forall>j<k. P j" "Q k" by blast
  with assms have "k = 0" by (cases k) auto
  with k show "Q 0" by simp
next
  assume "Q 0"
  with assms show "\<exists>k<Suc n. (\<forall>j<k. P j) \<and> \<not> P k \<and> Q k"
    by (intro exI[of _ 0]) simp
qed

lemma process_items_cumulative:
  "(process_items its ss ds = Inl f)
     = (\<exists>k<length its. (\<forall>j<k. withinRemaining ss its j) \<and> \<not> withinRemaining ss its k \<and>
                        feedId (its ! k) = f)"
proof (induction its arbitrary: ss ds)
  case Nil
  show ?case by simp
next
  case (Cons it its)
  have w0: "withinRemaining ss (it # its) 0
      = (findIndex (\<lambda>s. feedId s = feedId it) ss \<noteq> None \<and> quantity it \<le> onboard ss (feedId it))"
    by (simp add: withinRemaining_def requested_def)
  show ?case
  proof (cases "withinRemaining ss (it # its) 0")
    case False
    then have "process_items (it # its) ss ds = Inl (feedId it)"
      unfolding w0 by (auto simp: onboard_def split: option.splits)
    moreover have "(\<exists>k<Suc (length its). (\<forall>j<k. withinRemaining ss (it # its) j) \<and>
          \<not> withinRemaining ss (it # its) k \<and> feedId ((it # its) ! k) = f)
        = (feedId ((it # its) ! 0) = f)"
      using False
      by (rule first_failure_zero[where P = "withinRemaining ss (it # its)"
            and Q = "\<lambda>k. feedId ((it # its) ! k) = f"])
    ultimately show ?thesis by auto
  next
    case True
    then obtain sIdx where sIdx: "findIndex (\<lambda>s. feedId s = feedId it) ss = Some sIdx"
      and le: "quantity it \<le> quantity (ss ! sIdx)"
      unfolding w0 by (auto simp: onboard_def)
    let ?ss1 = "ss[sIdx := (ss ! sIdx)\<lparr>quantity := quantity (ss ! sIdx) - quantity it\<rparr>]"
    let ?ds1 = "(case findIndex (\<lambda>s. feedId s = feedId it) ds of
                 Some dIdx \<Rightarrow> ds[dIdx := (ds ! dIdx)\<lparr>quantity := quantity (ds ! dIdx) + quantity it\<rparr>]
               | None \<Rightarrow> ds @ [\<lparr>feedId = feedId it, quantity = quantity it\<rparr>])"
    have step: "process_items (it # its) ss ds = process_items its ?ss1 ?ds1"
      using sIdx le by (simp add: Let_def)
    have present: "findIndex (\<lambda>s. feedId s = g) ?ss1 = findIndex (\<lambda>s. feedId s = g) ss" for g
      by (rule findIndex_feed_map) (rule feedId_list_update)
    have on: "onboard ?ss1 g = onboard ss g - (if feedId it = g then quantity it else 0)" for g
      using onboard_update[OF sIdx, of "quantity (ss ! sIdx) - quantity it" g] sIdx
      by (auto simp: onboard_def)
    have shift: "withinRemaining ?ss1 its j = withinRemaining ss (it # its) (Suc j)" for j
      unfolding withinRemaining_def present on by (auto simp: requested_Cons)
    have "(process_items its ?ss1 ?ds1 = Inl f)
        = (\<exists>k<length its. (\<forall>j<k. withinRemaining ss (it # its) (Suc j)) \<and>
              \<not> withinRemaining ss (it # its) (Suc k) \<and> feedId ((it # its) ! Suc k) = f)"
      unfolding Cons.IH shift by simp
    also have "\<dots> = (\<exists>k<Suc (length its). (\<forall>j<k. withinRemaining ss (it # its) j) \<and>
          \<not> withinRemaining ss (it # its) k \<and> feedId ((it # its) ! k) = f)"
      using True
      by (rule first_failure_shift[where P = "withinRemaining ss (it # its)"
            and Q = "\<lambda>k. feedId ((it # its) ! k) = f", symmetric])
    finally show ?thesis unfolding step by simp
  qed
qed

lemma transfer_refusal:
  assumes "srcNo \<noteq> []" "destNo \<noteq> []" "firstMatch srcNo db = Some s"
  shows "(fst (transferFromSourceToDest srcNo destNo its db) = Failed (InsufficientTruckStockError f))
     = (\<exists>k<length its. (\<forall>j<k. withinRemaining (stockOf s) its j) \<and>
                         \<not> withinRemaining (stockOf s) its k \<and> feedId (its ! k) = f)"
proof (cases "its = []")
  case True
  then show ?thesis by (simp add: transferFromSourceToDest_def)
next
  case False
  show ?thesis
    unfolding transfer_outcome_validation[OF assms(1,2) False assms(3), where dsa = "[]"]
    by (rule process_items_cumulative)
qed

text \<open>
  Claim C6. Within one transfer every item is validated against the working copy of the
  source stock, which the items before it have already reduced. For every list of
  items, the transfer is refused for the stock of feed \<open>f\<close> exactly when the first item
  that asks more than what the source held of its feed, less what the items before it
  took of that feed, names \<open>f\<close> (an item whose feed the source does not name asks too
  much). In particular, when the source holds \<open>q\<close> of feed \<open>f\<close>, the items
  \<open>[(f, a), (f, b)]\<close> are refused for \<open>f\<close> exactly when \<open>q < a\<close> or the remainder \<open>q - a\<close> is
  less than \<open>b\<close>, while \<open>(f, a)\<close> alone is refused exactly when \<open>q < a\<close>, and \<open>(f, b)\<close> alone
  exactly when \<open>q < b\<close>. With \<open>q = 5\<close> and \<open>a = b = 3\<close> the pair fails although each item
  alone fits, also when items for another feed stand between or after the two.
\<close>

theorem transfer_validates_cumulatively:
  assumes "srcNo \<noteq> []" and "destNo \<noteq> []" and "firstMatch srcNo db = Some s"
  shows "(\<forall>its f.
       (fst (transferFromSourceToDest srcNo destNo its db) = Failed (InsufficientTruckStockError f))
         = (\<exists>k<length its. (\<forall>j<k. withinRemaining (stockOf s) its j) \<and>
                             \<not> withinRemaining (stockOf s) its k \<and> feedId (its ! k) = f)) \<and>
     (\<forall>f i q a b.
        findIndex (\<lambda>e. feedId e = f) (stockOf s) = Some i \<and> quantity (stockOf s ! i) = q \<longrightarrow>
          (fst (transferFromSourceToDest srcNo destNo
                  [\<lparr>feedId = f, quantity = a\<rparr>, \<lparr>feedId = f, quantity = b\<rparr>] db)
             = Failed (InsufficientTruckStockError f))
            = (q < a \<or> q - a < b)
          \<and> (fst (transferFromSourceToDest srcNo destNo [\<lparr>feedId = f, quantity = a\<rparr>] db)
             = Failed (InsufficientTruckStockError f)) = (q < a)
          \<and> (fst (transferFromSourceToDest srcNo destNo [\<lparr>feedId = f, quantity = b\<rparr>] db)
             = Failed (InsufficientTruckStockError f)) = (q < b))"
proof (rule conjI; intro allI impI)
  fix its f
  show "(fst (transferFromSourceToDest srcNo destNo its db) = Failed (InsufficientTruckStockError f))
         = (\<exists>k<length its. (\<forall>j<k. withinRemaining (stockOf s) its j) \<and>
                             \<not> withinRemaining (stockOf s) its k \<and> feedId (its ! k) = f)"
    by (rule transfer_refusal[OF assms])
next
  fix f i q a b
  assume "findIndex (\<lambda>e. feedId e = f) (stockOf s) = Some i \<and> quantity (stockOf s ! i) = q"
  then have h: "findIndex (\<lambda>e. feedId e = f) (stockOf s) = Some i" "quantity (stockOf s ! i) = q"
    by simp_all
  note two = process_items_two[OF h]
  have v2: "(fst (transferFromSourceToDest srcNo destNo
                 [\<lparr>feedId = f, quantity = a\<rparr>, \<lparr>feedId = f, quantity = b\<rparr>] db)
               = Failed (InsufficientTruckStockError f))
             = (process_items [\<lparr>feedId = f, quantity = a\<rparr>, \<lparr>feedId = f, quantity = b\<rparr>]
                  (stockOf s) [] = Inl f)"
    by (rule transfer_outcome_validation[OF assms(1,2) _ assms(3)]) simp
  have v1: "(fst (transferFromSourceToDest srcNo destNo [\<lparr>feedId = f, quantity = c\<rparr>] db)
               = Failed (InsufficientTruckStockError f))
             = (process_items [\<lparr>feedId = f, quantity = c\<rparr>] (stockOf s) [] = Inl f)" for c
    by (rule transfer_outcome_validation[OF assms(1,2) _ assms(3)]) simp
  show "(fst (transferFromSourceToDest srcNo destNo
                  [\<lparr>feedId = f, quantity = a\<rparr>, \<lparr>feedId = f, quantity = b\<rparr>] db)
             = Failed (InsufficientTruckStockError f))
            = (q < a \<or> q - a < b)
          \<and> (fst (transferFromSourceToDest srcNo destNo [\<lparr>feedId = f, quantity = a\<rparr>] db)
             = Failed (InsufficientTruckStockError f)) = (q < a)
          \<and> (fst (transferFromSourceToDest srcNo destNo [\<lparr>feedId = f, quantity = b\<rparr>] db)
             = Failed (InsufficientTruckStockError f)) = (q < b)"
    unfolding v2 v1
    unfolding two by simp
qed

theorem transfer_validates_cumulatively_witness:
  "fst (transferFromSourceToDest ''T1'' ''T2''
          [\<lparr>feedId = 1, quantity = 3\<rparr>, \<lparr>feedId = 1, quantity = 3\<rparr>] transfer_example)
     = Failed (InsufficientTruckStockError 1) \<and>
   fst (transferFromSourceToDest ''T1'' ''T2'' [\<lparr>feedId = 1, quantity = 3\<rparr>] transfer_example)
     \<noteq> Failed (InsufficientTruckStockError 1) \<and>
   fst (transferFromSourceToDest ''T1'' ''T2''
          [\<lparr>feedId = 1, quantity = 3\<rparr>, \<lparr>feedId = 1, quantity = 3\<rparr>, \<lparr>feedId = 2, quantity = 1\<rparr>]
          two_feed_example)
     = Failed (InsufficientTruckStockError 1) \<and>
   fst (transferFromSourceToDest ''T1'' ''T2''
          [\<lparr>feedId = 1, quantity = 3\<rparr>, \<lparr>feedId = 2, quantity = 1\<rparr>, \<lparr>feedId = 1, quantity = 3\<rparr>]
          two_feed_example)
     = Failed (InsufficientTruckStockError 1) \<and>
   fst (transferFromSourceToDest ''T1'' ''T2''
          [\<lparr>feedId = 1, quantity = 3\<rparr>, \<lparr>feedId = 2, quantity = 1\<rparr>, \<lparr>feedId = 1, quantity = 2\<rparr>]
          two_feed_example)
     = Completed"
proof -
  have src: "firstMatch ''T1'' transfer_example =
      Some \<lparr>tid = 0, truckNumber = ''T1'', ttype = None, destinations = None,
            items = None, stock = Some [\<lparr>feedId = 1, quantity = 5\<rparr>]\<rparr>"
    by (simp add: transfer_example_def firstMatch_def query_trucks_def)
  have src2: "firstMatch ''T1'' two_feed_example =
      Some \<lparr>tid = 0, truckNumber = ''T1'', ttype = None, destinations = None,
            items = None,
            stock = Some [\<lparr>feedId = 1, quantity = 5\<rparr>, \<lparr>feedId = 2, quantity = 1\<rparr>]\<rparr>"
    by (simp add: two_feed_example_def firstMatch_def query_trucks_def)
  have ne: "''T1'' \<noteq> []" "''T2'' \<noteq> []" by simp_all
  note pair = transfer_validates_cumulatively [OF ne src, THEN conjunct2, rule_format, of 1 0 5 3 3]
  note gen = transfer_validates_cumulatively [OF ne src2, THEN conjunct1, rule_format]
  have a: "fst (transferFromSourceToDest ''T1'' ''T2''
          [\<lparr>feedId = 1, quantity = 3\<rparr>, \<lparr>feedId = 1, quantity = 3\<rparr>] transfer_example)
     = Failed (InsufficientTruckStockError 1) \<and>
   fst (transferFromSourceToDest ''T1'' ''T2'' [\<lparr>feedId = 1, quantity = 3\<rparr>] transfer_example)
     \<noteq> Failed (InsufficientTruckStockError 1)"
    using pair by (simp add: stockOf_def)
  have b: "fst (transferFromSourceToDest ''T1'' ''T2''
          [\<lparr>feedId = 1, quantity = 3\<rparr>, \<lparr>feedId = 1, quantity = 3\<rparr>, \<lparr>feedId = 2, quantity = 1\<rparr>]
          two_feed_example)
     = Failed (InsufficientTruckStockError 1)"
    unfolding gen
    by (intro exI[of _ 1]) (simp add: withinRemaining_def onboard_def requested_def stockOf_def)
  have c: "fst (transferFromSourceToDest ''T1'' ''T2''
          [\<lparr>feedId = 1, quantity = 3\<rparr>, \<lparr>feedId = 2, quantity = 1\<rparr>, \<lparr>feedId = 1, quantity = 3\<rparr>]
          two_feed_example)
     = Failed (InsufficientTruckStockError 1)"
    unfolding gen
    by (intro exI[of _ 2]) (simp add: withinRemaining_def onboard_def requested_def stockOf_def
        less_Suc_eq numeral_2_eq_2)
  have d: "fst (transferFromSourceToDest ''T1'' ''T2''
          [\<lparr>feedId = 1, quantity = 3\<rparr>, \<lparr>feedId = 2, quantity = 1\<rparr>, \<lparr>feedId = 1, quantity = 2\<rparr>]
          two_feed_example)
     = Completed"
    by (simp add: transferFromSourceToDest_def two_feed_example_def query_trucks_def stockOf_def
        addDoc_trucks_def updateDoc_trucks_def Let_def)
  from a b c d show ?thesis by simp
qed

subsection \<open>A transfer from a truck to itself\<close>

text \<open>
  Claim C10. When source and destination number are the same, a record matches it and
  the validation of the items succeeds, the transfer completes and the record's stock
  afterwards is its original stock with every item's quantity added: it names the same
  feeds in the same order, and holds of every feed what it held before plus what the
  items asked of that feed. The deduction computed on the source copy is overwritten by
  the second write.
\<close>

theorem transfer_to_self_adds:
  assumes "truckNo \<noteq> []" and "its \<noteq> []"
    and "firstMatch truckNo db = Some t"
    and "\<forall>f. fst (transferFromSourceToDest truckNo truckNo its db)
              \<noteq> Failed (InsufficientTruckStockError f)"
  shows "fst (transferFromSourceToDest truckNo truckNo its db) = Completed \<and>
     (\<exists>stock'.
        firstMatch truckNo (snd (transferFromSourceToDest truckNo truckNo its db))
          = Some (t\<lparr>stock := Some stock'\<rparr>) \<and>
        map feedId stock' = map feedId (stockOf t) \<and>
        (\<forall>f. onboard stock' f = onboard (stockOf t) f + requested its f))"
proof -
  have d: "firstMatch truckNo (destResolved truckNo db) = Some t"
    using assms(3) by (simp add: firstMatch_destResolved)
  have "\<forall>f. process_items its (stockOf t) (stockOf t) \<noteq> Inl f"
    using assms(4) transfer_outcome_validation[OF assms(1,1,2,3)] by blast
  then obtain srcStock' destStock' where
    ok: "process_items its (stockOf t) (stockOf t) = Inr (srcStock', destStock')"
    by (cases "process_items its (stockOf t) (stockOf t)") auto
  note eff = process_items_effect[OF ok]
  from eff have feeds: "map feedId destStock' = map feedId (stockOf t)" by blast
  from eff have qty: "\<forall>f. onboard destStock' f = onboard (stockOf t) f + requested its f" by blast
  from transfer_success[OF assms(1,1,2,3) d ok] feeds qty
  show ?thesis by auto
qed

theorem transfer_to_self_adds_witness:
  "fst (transferFromSourceToDest ''T1'' ''T1'' [\<lparr>feedId = 1, quantity = 2\<rparr>] transfer_example)
     = Completed \<and>
   map_option stockOf (firstMatch ''T1''
       (snd (transferFromSourceToDest ''T1'' ''T1'' [\<lparr>feedId = 1, quantity = 2\<rparr>] transfer_example)))
     = Some [\<lparr>feedId = 1, quantity = 7\<rparr>]"
proof -
  have src: "firstMatch ''T1'' transfer_example =
      Some \<lparr>tid = 0, truckNumber = ''T1'', ttype = None, destinations = None,
            items = None, stock = Some [\<lparr>feedId = 1, quantity = 5\<rparr>]\<rparr>"
    by (simp add: transfer_example_def firstMatch_def query_trucks_def)
  have run: "transferFromSourceToDest ''T1'' ''T1'' [\<lparr>feedId = 1, quantity = 2\<rparr>] transfer_example
      = (Completed,
         \<lparr>feeds = [], godownStock = [],
          trucks = [\<lparr>tid = 0, truckNumber = ''T1'', ttype = None, destinations = None,
                    items = None, stock = Some [\<lparr>feedId = 1, quantity = 7\<rparr>]\<rparr>],
          directTransfers = [\<lparr>xid = 1, sourceTruckNumber = ''T1'', destTruckNumber = ''T1'',
                              xitems = [\<lparr>feedId = 1, quantity = 2\<rparr>]\<rparr>],
          logs = [(2, DirectTransferLog ''T1'' ''T1'' [\<lparr>feedId = 1, quantity = 2\<rparr>])],
          nextId = 3\<rparr>)"
    by (simp add: transferFromSourceToDest_def transfer_example_def query_trucks_def
        stockOf_def updateDoc_trucks_def addDoc_directTransfers_def addDoc_logs_def)
  have ok: "\<forall>f. fst (transferFromSourceToDest ''T1'' ''T1'' [\<lparr>feedId = 1, quantity = 2\<rparr>]
                      transfer_example) \<noteq> Failed (InsufficientTruckStockError f)"
    using run by simp
  from transfer_to_self_adds [OF _ _ src ok] run
  show ?thesis by (simp add: firstMatch_def query_trucks_def stockOf_def)
qed

subsection \<open>A transfer that fails validation\<close>

text \<open>
  Claim C1, as the code has it. The destination record is resolved before the items are
  validated, so a transfer that fails validation has already created the destination
  record when no record carried the destination's number. Everything else is as the
  claim says. Whenever a transfer is refused for the stock of a feed, the direct
  transfers, the logs, the catalog and the ledger are unchanged, and the truck
  collection is the old one, followed by the new empty destination record if one had to
  be created; no existing truck record is modified.
\<close>

theorem transfer_failure_persistence:
  assumes "fst (transferFromSourceToDest srcNo destNo its db) = Failed (InsufficientTruckStockError f)"
  shows "directTransfers (snd (transferFromSourceToDest srcNo destNo its db)) = directTransfers db \<and>
     logs (snd (transferFromSourceToDest srcNo destNo its db)) = logs db \<and>
     feeds (snd (transferFromSourceToDest srcNo destNo its db)) = feeds db \<and>
     godownStock (snd (transferFromSourceToDest srcNo destNo its db)) = godownStock db \<and>
     trucks (snd (transferFromSourceToDest srcNo destNo its db))
       = (case firstMatch destNo db of
            Some d \<Rightarrow> trucks db
          | None \<Rightarrow> trucks db @
              [\<lparr>tid = nextId db, truckNumber = destNo, ttype = None, destinations = None,
                items = None, stock = Some []\<rparr>])"
proof -
  from assms have ne: "srcNo \<noteq> []" "destNo \<noteq> []" "its \<noteq> []"
    by (auto simp: transferFromSourceToDest_def split: if_splits)
  from assms ne obtain s where s: "firstMatch srcNo db = Some s"
    by (cases "query_trucks srcNo db") (auto simp: transferFromSourceToDest_def firstMatch_def)
  obtain d where d: "firstMatch destNo (destResolved destNo db) = Some d"
    using dest_exists by blast
  from assms have "process_items its (stockOf s) (stockOf d) = Inl f"
    using transfer_outcome_validation[OF ne s] by blast
  then have "snd (transferFromSourceToDest srcNo destNo its db) = destResolved destNo db"
    by (simp add: transfer_unfold[OF ne s d])
  then show ?thesis
    by (simp add: destResolved_def addDoc_trucks_def emptyDest_def split: option.splits)
qed

theorem transfer_failure_persistence_witness:
  "fst (transferFromSourceToDest ''T1'' ''T1'' [\<lparr>feedId = 1, quantity = 6\<rparr>] transfer_example)
     = Failed (InsufficientTruckStockError 1) \<and>
   snd (transferFromSourceToDest ''T1'' ''T1'' [\<lparr>feedId = 1, quantity = 6\<rparr>] transfer_example)
     = transfer_example \<and>
   logs (snd (transferFromSourceToDest ''T1'' ''T2'' [\<lparr>feedId = 1, quantity = 6\<rparr>] transfer_example))
     = [] \<and>
   directTransfers
     (snd (transferFromSourceToDest ''T1'' ''T2'' [\<lparr>feedId = 1, quantity = 6\<rparr>] transfer_example))
     = [] \<and>
   map truckNumber
     (trucks (snd (transferFromSourceToDest ''T1'' ''T2'' [\<lparr>feedId = 1, quantity = 6\<rparr>]
        transfer_example)))
     = [''T1'', ''T2'']"
proof -
  have src: "firstMatch ''T1'' transfer_example =
      Some \<lparr>tid = 0, truckNumber = ''T1'', ttype = None, destinations = None,
            items = None, stock = Some [\<lparr>feedId = 1, quantity = 5\<rparr>]\<rparr>"
    by (simp add: transfer_example_def firstMatch_def query_trucks_def)
  have none: "firstMatch ''T2'' transfer_example = None"
    by (simp add: transfer_example_def firstMatch_def query_trucks_def)
  have fail1: "fst (transferFromSourceToDest ''T1'' ''T1'' [\<lparr>feedId = 1, quantity = 6\<rparr>]
                     transfer_example) = Failed (InsufficientTruckStockError 1)"
    by (simp add: transferFromSourceToDest_def transfer_example_def query_trucks_def stockOf_def)
  have fail2: "fst (transferFromSourceToDest ''T1'' ''T2'' [\<lparr>feedId = 1, quantity = 6\<rparr>]
                     transfer_example) = Failed (InsufficientTruckStockError 1)"
    by (simp add: transferFromSourceToDest_def transfer_example_def query_trucks_def stockOf_def
        addDoc_trucks_def)
  note self = transfer_failure_persistence [OF fail1]
  note other = transfer_failure_persistence [OF fail2]
  have "snd (transferFromSourceToDest ''T1'' ''T1'' [\<lparr>feedId = 1, quantity = 6\<rparr>] transfer_example)
     = transfer_example"
    using self src by (simp add: store.equality transfer_example_def transferFromSourceToDest_def
        query_trucks_def stockOf_def)
  moreover from other none
  have "map truckNumber
     (trucks (snd (transferFromSourceToDest ''T1'' ''T2'' [\<lparr>feedId = 1, quantity = 6\<rparr>]
        transfer_example)))
     = [''T1'', ''T2'']"
    by (simp add: transfer_example_def)
  moreover from other
  have "logs (snd (transferFromSourceToDest ''T1'' ''T2'' [\<lparr>feedId = 1, quantity = 6\<rparr>]
                  transfer_example)) = []"
    "directTransfers (snd (transferFromSourceToDest ''T1'' ''T2'' [\<lparr>feedId = 1, quantity = 6\<rparr>]
                  transfer_example)) = []"
    by (simp_all add: transfer_example_def)
  ultimately show ?thesis using fail1 by simp
qed

text \<open>
  The claim as stated fails on a store with one truck T1 holding five bags of feed 1: the
  transfer of six bags to T2 is refused for feed 1, and the truck collection has gained a
  record for T2.
\<close>

theorem transfer_failure_creates_dest:
  "fst (transferFromSourceToDest ''T1'' ''T2'' [\<lparr>feedId = 1, quantity = 6\<rparr>] transfer_example)
     = Failed (InsufficientTruckStockError 1) \<and>
   trucks (snd (transferFromSourceToDest ''T1'' ''T2'' [\<lparr>feedId = 1, quantity = 6\<rparr>] transfer_example))
     = trucks transfer_example @
         [\<lparr>tid = 1, truckNumber = ''T2'', ttype = None, destinations = None,
           items = None, stock = Some []\<rparr>] \<and>
   trucks (snd (transferFromSourceToDest ''T1'' ''T2'' [\<lparr>feedId = 1, quantity = 6\<rparr>] transfer_example))
     \<noteq> trucks transfer_example"
  by (simp add: transferFromSourceToDest_def transfer_example_def query_trucks_def
      addDoc_trucks_def stockOf_def)

subsection \<open>Writing to the warehouse ledger\<close>

lemma updateDoc_godownStock_fields:
  "updateDoc_godownStock i q db = Some db' \<Longrightarrow>
     feeds db' = feeds db \<and> trucks db' = trucks db \<and> directTransfers db' = directTransfers db \<and>
     logs db' = logs db \<and> nextId db' = nextId db \<and>
     godownStock db' = map (\<lambda>d. if gid d = i then d\<lparr>quantity := q\<rparr> else d) (godownStock db)"
  by (auto simp: updateDoc_godownStock_def split: if_splits)

lemma updateDoc_godownStock_Some:
  "e \<in> set (godownStock db) \<Longrightarrow> \<exists>db'. updateDoc_godownStock (gid e) q db = Some db'"
  by (simp add: updateDoc_godownStock_def)

lemma find_write_other:
  assumes "distinct (map gid xs)" "e \<in> set xs" "f \<noteq> feedId e"
  shows "find (\<lambda>g. feedId g = f) (map (\<lambda>d. if gid d = gid e then d\<lparr>quantity := v\<rparr> else d) xs)
           = find (\<lambda>g. feedId g = f) xs"
proof -
  have eq: "d = e" if "d \<in> set xs" "gid d = gid e" for d
    using assms(1,2) that by (meson distinct_map inj_onD)
  have "find (\<lambda>g. feedId g = f) (map (\<lambda>d. if gid d = gid e then d\<lparr>quantity := v\<rparr> else d) ys)
           = find (\<lambda>g. feedId g = f) ys" if "set ys \<subseteq> set xs" for ys
    using that
  proof (induction ys)
    case Nil
    then show ?case by simp
  next
    case (Cons y ys)
    then show ?case using eq[of y] assms(3) by auto
  qed
  then show ?thesis by simp
qed

lemma find_write_same:
  assumes "find (\<lambda>g. feedId g = f) xs = Some e"
  shows "find (\<lambda>g. feedId g = f) (map (\<lambda>d. if gid d = gid e then d\<lparr>quantity := v\<rparr> else d) xs)
           = Some (e\<lparr>quantity := v\<rparr>)"
  using assms by (simp add: find_map_inv)

lemma find_append_new:
  "find (\<lambda>g. feedId g = f) (xs @ [n]) =
     (case find (\<lambda>g. feedId g = f) xs of Some e \<Rightarrow> Some e
      | None \<Rightarrow> if feedId n = f then Some n else None)"
  by (induction xs) auto

lemma wf_gid_distinct: "wf_store db \<Longrightarrow> distinct (map gid (godownStock db))"
  by (simp add: wf_store_def)

lemma shownQuantity_find:
  "find (\<lambda>g. feedId g = f) xs = find (\<lambda>g. feedId g = f) ys \<Longrightarrow> shownQuantity xs f = shownQuantity ys f"
  by (simp add: shownQuantity_def)

lemma map_feedId_write:
  "map feedId (map (\<lambda>d. if gid d = i then d\<lparr>quantity := v\<rparr> else d) xs) = map feedId xs"
  by (induction xs) auto

lemma map_gid_write:
  "map gid (map (\<lambda>d. if gid d = i then d\<lparr>quantity := v\<rparr> else d) xs) = map gid xs"
  by (induction xs) auto

lemma addOrIncreaseGodown_step:
  assumes wf: "wf_store cur"
    and snap: "find (\<lambda>g. feedId g = f) (godownStock cur) = find (\<lambda>g. feedId g = f) godown"
  shows "\<exists>cur'. addOrIncreaseGodown godown f q cur = (Completed, cur') \<and> wf_store cur' \<and>
      shownQuantity (godownStock cur') f = shownQuantity (godownStock cur) f + q \<and>
      (\<forall>f'. f' \<noteq> f \<longrightarrow> find (\<lambda>g. feedId g = f') (godownStock cur')
                          = find (\<lambda>g. feedId g = f') (godownStock cur)) \<and>
      (distinct (map feedId (godownStock cur)) \<longrightarrow> distinct (map feedId (godownStock cur'))) \<and>
      feeds cur' = feeds cur \<and> trucks cur' = trucks cur \<and>
      directTransfers cur' = directTransfers cur \<and> logs cur' = logs cur"
proof (cases "find (\<lambda>g. feedId g = f) godown")
  case None
  let ?cur' = "addDoc_godownStock f q cur"
  have r: "addOrIncreaseGodown godown f q cur = (Completed, ?cur')"
    using None by (simp add: addOrIncreaseGodown_def)
  from None snap have absent: "find (\<lambda>g. feedId g = f) (godownStock cur) = None" by simp
  then have notin: "f \<notin> set (map feedId (godownStock cur))"
    by (auto simp: find_None_iff)
  have "shownQuantity (godownStock ?cur') f = shownQuantity (godownStock cur) f + q"
    using absent by (simp add: shownQuantity_def addDoc_godownStock_def find_append_new)
  moreover have "find (\<lambda>g. feedId g = f') (godownStock ?cur')
                   = find (\<lambda>g. feedId g = f') (godownStock cur)" if "f' \<noteq> f" for f'
    using that by (simp add: addDoc_godownStock_def find_append_new split: option.splits)
  moreover have "distinct (map feedId (godownStock cur)) \<longrightarrow> distinct (map feedId (godownStock ?cur'))"
    using notin by (simp add: addDoc_godownStock_def)
  moreover have "feeds ?cur' = feeds cur \<and> trucks ?cur' = trucks cur \<and>
      directTransfers ?cur' = directTransfers cur \<and> logs ?cur' = logs cur"
    by (simp add: addDoc_godownStock_def)
  ultimately show ?thesis
    apply (intro exI[of _ ?cur'])
    apply (intro conjI)
            apply (rule r)
           apply (rule wf_addDoc_godownStock[OF wf])
          apply simp_all
    done
next
  case (Some existing)
  with snap have here: "find (\<lambda>g. feedId g = f) (godownStock cur) = Some existing" by simp
  then have mem: "existing \<in> set (godownStock cur)" and fe: "feedId existing = f"
    by (auto dest: find_Some_mem)
  obtain cur' where u: "updateDoc_godownStock (gid existing) (quantity existing + q) cur = Some cur'"
    using updateDoc_godownStock_Some[OF mem] by blast
  note fields = updateDoc_godownStock_fields[OF u]
  from fields have gs: "godownStock cur' =
      map (\<lambda>d. if gid d = gid existing then d\<lparr>quantity := quantity existing + q\<rparr> else d)
        (godownStock cur)" by blast
  have r: "addOrIncreaseGodown godown f q cur = (Completed, cur')"
    using Some u by (simp add: addOrIncreaseGodown_def)
  have "shownQuantity (godownStock cur') f = shownQuantity (godownStock cur) f + q"
    unfolding gs shownQuantity_def find_write_same[OF here] here by simp
  moreover have "find (\<lambda>g. feedId g = f') (godownStock cur')
                   = find (\<lambda>g. feedId g = f') (godownStock cur)" if "f' \<noteq> f" for f'
    unfolding gs using that fe by (intro find_write_other[OF wf_gid_distinct[OF wf] mem]) simp
  moreover have "map feedId (godownStock cur') = map feedId (godownStock cur)"
    unfolding gs by (rule map_feedId_write)
  then have "distinct (map feedId (godownStock cur)) \<longrightarrow> distinct (map feedId (godownStock cur'))"
    by simp
  moreover have "feeds cur' = feeds cur \<and> trucks cur' = trucks cur \<and>
      directTransfers cur' = directTransfers cur \<and> logs cur' = logs cur"
    using fields by simp
  ultimately show ?thesis
    apply (intro exI[of _ cur'])
    apply (intro conjI)
            apply (rule r)
           apply (rule wf_updateDoc_godownStock[OF wf u])
          apply simp_all
    done
qed

lemma decreaseGodown_uncovered:
  "\<not> covered godown it \<Longrightarrow>
     decreaseGodown godown (feedId it) (quantity it) cur = (Failed InsufficientStockError, cur)"
  by (auto simp: covered_def decreaseGodown_def split: option.splits)

lemma decreaseGodown_step:
  assumes wf: "wf_store cur"
    and snap: "find (\<lambda>g. feedId g = feedId it) (godownStock cur)
                 = find (\<lambda>g. feedId g = feedId it) godown"
    and cov: "covered godown it"
  shows "\<exists>cur'. decreaseGodown godown (feedId it) (quantity it) cur = (Completed, cur') \<and>
      wf_store cur' \<and>
      shownQuantity (godownStock cur') (feedId it)
        = shownQuantity (godownStock cur) (feedId it) - quantity it \<and>
      (\<forall>f'. f' \<noteq> feedId it \<longrightarrow> find (\<lambda>g. feedId g = f') (godownStock cur')
                          = find (\<lambda>g. feedId g = f') (godownStock cur)) \<and>
      map feedId (godownStock cur') = map feedId (godownStock cur) \<and>
      feeds cur' = feeds cur \<and> trucks cur' = trucks cur \<and>
      directTransfers cur' = directTransfers cur \<and> logs cur' = logs cur"
proof -
  define f q where "f = feedId it" and "q = quantity it"
  note snap = snap[folded f_def]
  from cov obtain existing where Some: "find (\<lambda>g. feedId g = f) godown = Some existing"
    and le: "q \<le> quantity existing"
    by (auto simp: covered_def f_def q_def split: option.splits)
  with snap have here: "find (\<lambda>g. feedId g = f) (godownStock cur) = Some existing" by simp
  then have mem: "existing \<in> set (godownStock cur)" and fe: "feedId existing = f"
    by (auto dest: find_Some_mem)
  obtain cur' where u: "updateDoc_godownStock (gid existing) (quantity existing - q) cur = Some cur'"
    using updateDoc_godownStock_Some[OF mem] by blast
  note fields = updateDoc_godownStock_fields[OF u]
  from fields have gs: "godownStock cur' =
      map (\<lambda>d. if gid d = gid existing then d\<lparr>quantity := quantity existing - q\<rparr> else d)
        (godownStock cur)" by blast
  have r: "decreaseGodown godown f q cur = (Completed, cur')"
    using Some le u by (simp add: decreaseGodown_def)
  have "shownQuantity (godownStock cur') f = shownQuantity (godownStock cur) f - q"
    unfolding gs shownQuantity_def find_write_same[OF here] here by simp
  moreover have "find (\<lambda>g. feedId g = f') (godownStock cur')
                   = find (\<lambda>g. feedId g = f') (godownStock cur)" if "f' \<noteq> f" for f'
    unfolding gs using that fe by (intro find_write_other[OF wf_gid_distinct[OF wf] mem]) simp
  moreover have "map feedId (godownStock cur') = map feedId (godownStock cur)"
    unfolding gs by (rule map_feedId_write)
  moreover have "feeds cur' = feeds cur \<and> trucks cur' = trucks cur \<and>
      directTransfers cur' = directTransfers cur \<and> logs cur' = logs cur"
    using fields by simp
  ultimately show ?thesis
    unfolding f_def[symmetric] q_def[symmetric]
    apply (intro exI[of _ cur'])
    apply (intro conjI)
            apply (rule r)
           apply (rule wf_updateDoc_godownStock[OF wf u])
          apply simp_all
    done
qed

lemma incoming_loop_distinct:
  assumes "wf_store cur" and "distinct (map feedId its)"
    and "\<forall>i \<in> set its. find (\<lambda>g. feedId g = feedId i) (godownStock cur)
                            = find (\<lambda>g. feedId g = feedId i) godown"
  shows "fst (incoming_loop godown its cur) = Completed \<and>
     wf_store (snd (incoming_loop godown its cur)) \<and>
     (\<forall>f. shownQuantity (godownStock (snd (incoming_loop godown its cur))) f
            = shownQuantity (godownStock cur) f + requested its f) \<and>
     (distinct (map feedId (godownStock cur)) \<longrightarrow>
        distinct (map feedId (godownStock (snd (incoming_loop godown its cur))))) \<and>
     feeds (snd (incoming_loop godown its cur)) = feeds cur \<and>
     trucks (snd (incoming_loop godown its cur)) = trucks cur \<and>
     directTransfers (snd (incoming_loop godown its cur)) = directTransfers cur \<and>
     logs (snd (incoming_loop godown its cur)) = logs cur"
  using assms
proof (induction its arbitrary: cur)
  case Nil
  then show ?case by (simp add: requested_def)
next
  case (Cons it its)
  from Cons.prems(3)
  have snap: "find (\<lambda>g. feedId g = feedId it) (godownStock cur)
                = find (\<lambda>g. feedId g = feedId it) godown" by simp
  from addOrIncreaseGodown_step[OF Cons.prems(1) snap, of "quantity it"]
  obtain cur' where st: "addOrIncreaseGodown godown (feedId it) (quantity it) cur = (Completed, cur')"
    and wf': "wf_store cur'"
    and q': "shownQuantity (godownStock cur') (feedId it)
               = shownQuantity (godownStock cur) (feedId it) + quantity it"
    and oth: "\<And>f'. f' \<noteq> feedId it \<Longrightarrow> find (\<lambda>g. feedId g = f') (godownStock cur')
                          = find (\<lambda>g. feedId g = f') (godownStock cur)"
    and dis: "distinct (map feedId (godownStock cur)) \<longrightarrow> distinct (map feedId (godownStock cur'))"
    and rest: "feeds cur' = feeds cur" "trucks cur' = trucks cur"
      "directTransfers cur' = directTransfers cur" "logs cur' = logs cur"
    by blast
  have loop: "incoming_loop godown (it # its) cur = incoming_loop godown its cur'"
    using st by simp
  have d': "distinct (map feedId its)" using Cons.prems(2) by simp
  have notin: "feedId it \<notin> set (map feedId its)" using Cons.prems(2) by simp
  have snap': "\<forall>i \<in> set its. find (\<lambda>g. feedId g = feedId i) (godownStock cur')
                                = find (\<lambda>g. feedId g = feedId i) godown"
  proof
    fix i assume i: "i \<in> set its"
    with notin have "feedId i \<noteq> feedId it" by (metis image_eqI set_map)
    from oth[OF this] Cons.prems(3) i show
      "find (\<lambda>g. feedId g = feedId i) (godownStock cur') = find (\<lambda>g. feedId g = feedId i) godown"
      by simp
  qed
  note IH = Cons.IH[OF wf' d' snap']
  have qty: "shownQuantity (godownStock (snd (incoming_loop godown its cur'))) f
            = shownQuantity (godownStock cur) f + requested (it # its) f" for f
  proof (cases "f = feedId it")
    case True
    with IH q' show ?thesis by (simp add: requested_Cons)
  next
    case False
    from oth[OF False] have "shownQuantity (godownStock cur') f = shownQuantity (godownStock cur) f"
      by (rule shownQuantity_find)
    with IH False show ?thesis by (simp add: requested_Cons)
  qed
  show ?case
    unfolding loop using IH qty dis rest by simp
qed

lemma decreaseGodown_frame:
  "feeds (snd (decreaseGodown godown f q cur)) = feeds cur \<and>
   trucks (snd (decreaseGodown godown f q cur)) = trucks cur \<and>
   directTransfers (snd (decreaseGodown godown f q cur)) = directTransfers cur \<and>
   logs (snd (decreaseGodown godown f q cur)) = logs cur \<and>
   nextId (snd (decreaseGodown godown f q cur)) = nextId cur \<and>
   map feedId (godownStock (snd (decreaseGodown godown f q cur))) = map feedId (godownStock cur) \<and>
   map gid (godownStock (snd (decreaseGodown godown f q cur))) = map gid (godownStock cur)"
  by (auto simp: decreaseGodown_def updateDoc_godownStock_def map_feedId_write map_gid_write
      simp del: map_map split: option.splits)

lemma outgoing_loop_frame:
  "feeds (outgoing_loop godown its cur) = feeds cur \<and>
   trucks (outgoing_loop godown its cur) = trucks cur \<and>
   directTransfers (outgoing_loop godown its cur) = directTransfers cur \<and>
   logs (outgoing_loop godown its cur) = logs cur \<and>
   nextId (outgoing_loop godown its cur) = nextId cur \<and>
   map feedId (godownStock (outgoing_loop godown its cur)) = map feedId (godownStock cur) \<and>
   map gid (godownStock (outgoing_loop godown its cur)) = map gid (godownStock cur)"
proof (induction its arbitrary: cur)
  case Nil
  show ?case by simp
next
  case (Cons it its)
  have step: "outgoing_loop godown (it # its) cur
        = outgoing_loop godown its (snd (decreaseGodown godown (feedId it) (quantity it) cur))"
    by (cases "decreaseGodown godown (feedId it) (quantity it) cur") (auto split: outcome.splits)
  show ?case
    unfolding step
    using Cons.IH[of "snd (decreaseGodown godown (feedId it) (quantity it) cur)"]
      decreaseGodown_frame[of godown "feedId it" "quantity it" cur]
    by simp
qed

lemma outgoing_loop_skips:
  "outgoing_loop godown its cur = outgoing_loop godown (filter (covered godown) its) cur"
proof (induction its arbitrary: cur)
  case Nil
  show ?case by simp
next
  case (Cons it its)
  show ?case
  proof (cases "covered godown it")
    case True
    then show ?thesis by (simp add: Cons.IH split: prod.splits outcome.splits)
  next
    case False
    then have "decreaseGodown godown (feedId it) (quantity it) cur = (Failed InsufficientStockError, cur)"
      by (rule decreaseGodown_uncovered)
    with False show ?thesis by (simp add: Cons.IH)
  qed
qed

lemma outgoing_loop_distinct:
  assumes "wf_store cur" and "distinct (map feedId its)"
    and "\<forall>i \<in> set its. find (\<lambda>g. feedId g = feedId i) (godownStock cur)
                            = find (\<lambda>g. feedId g = feedId i) godown"
  shows "wf_store (outgoing_loop godown its cur) \<and>
     (\<forall>f. shownQuantity (godownStock (outgoing_loop godown its cur)) f
            = shownQuantity (godownStock cur) f - requested (filter (covered godown) its) f)"
  using assms
proof (induction its arbitrary: cur)
  case Nil
  then show ?case by (simp add: requested_def)
next
  case (Cons it its)
  have d': "distinct (map feedId its)" using Cons.prems(2) by simp
  have notin: "feedId it \<notin> set (map feedId its)" using Cons.prems(2) by simp
  show ?case
  proof (cases "covered godown it")
    case False
    then have st: "decreaseGodown godown (feedId it) (quantity it) cur = (Failed InsufficientStockError, cur)"
      by (rule decreaseGodown_uncovered)
    have snap': "\<forall>i \<in> set its. find (\<lambda>g. feedId g = feedId i) (godownStock cur)
                                = find (\<lambda>g. feedId g = feedId i) godown"
      using Cons.prems(3) by simp
    from Cons.IH[OF Cons.prems(1) d' snap'] False st show ?thesis by simp
  next
    case True
    from Cons.prems(3)
    have snap: "find (\<lambda>g. feedId g = feedId it) (godownStock cur)
                  = find (\<lambda>g. feedId g = feedId it) godown" by simp
    from decreaseGodown_step[OF Cons.prems(1) snap True]
    obtain cur' where st: "decreaseGodown godown (feedId it) (quantity it) cur = (Completed, cur')"
      and wf': "wf_store cur'"
      and q': "shownQuantity (godownStock cur') (feedId it)
                 = shownQuantity (godownStock cur) (feedId it) - quantity it"
      and oth: "\<And>f'. f' \<noteq> feedId it \<Longrightarrow> find (\<lambda>g. feedId g = f') (godownStock cur')
                            = find (\<lambda>g. feedId g = f') (godownStock cur)"
      by blast
    have loop: "outgoing_loop godown (it # its) cur = outgoing_loop godown its cur'"
      using st by simp
    have snap': "\<forall>i \<in> set its. find (\<lambda>g. feedId g = feedId i) (godownStock cur')
                                  = find (\<lambda>g. feedId g = feedId i) godown"
    proof
      fix i assume i: "i \<in> set its"
      with notin have "feedId i \<noteq> feedId it" by (metis image_eqI set_map)
      from oth[OF this] Cons.prems(3) i show
        "find (\<lambda>g. feedId g = feedId i) (godownStock cur') = find (\<lambda>g. feedId g = feedId i) godown"
        by simp
    qed
    note IH = Cons.IH[OF wf' d' snap']
    have qty: "shownQuantity (godownStock (outgoing_loop godown its cur')) f
              = shownQuantity (godownStock cur) f - requested (filter (covered godown) (it # its)) f" for f
    proof (cases "f = feedId it")
      case True
      with IH q' \<open>covered godown it\<close> show ?thesis by (simp add: requested_Cons)
    next
      case False
      from oth[OF False] have "shownQuantity (godownStock cur') f = shownQuantity (godownStock cur) f"
        by (rule shownQuantity_find)
      with IH False \<open>covered godown it\<close> show ?thesis by (simp add: requested_Cons)
    qed
    show ?thesis unfolding loop using IH qty by simp
  qed
qed

lemma addOrIncreaseGodown_ids:
  assumes "set (map gid godown) \<subseteq> set (map gid (godownStock cur))"
  shows "fst (addOrIncreaseGodown godown f q cur) = Completed \<and>
     set (map gid (godownStock cur)) \<subseteq> set (map gid (godownStock (snd (addOrIncreaseGodown godown f q cur)))) \<and>
     feeds (snd (addOrIncreaseGodown godown f q cur)) = feeds cur \<and>
     trucks (snd (addOrIncreaseGodown godown f q cur)) = trucks cur \<and>
     directTransfers (snd (addOrIncreaseGodown godown f q cur)) = directTransfers cur \<and>
     logs (snd (addOrIncreaseGodown godown f q cur)) = logs cur"
proof (cases "find (\<lambda>g. feedId g = f) godown")
  case None
  then show ?thesis by (auto simp: addOrIncreaseGodown_def addDoc_godownStock_def)
next
  case (Some existing)
  then have "existing \<in> set godown" by (auto dest: find_Some_mem)
  with assms have "gid existing \<in> set (map gid (godownStock cur))" by auto
  with Some show ?thesis
    by (auto simp: addOrIncreaseGodown_def updateDoc_godownStock_def map_gid_write simp del: map_map)
qed

lemma incoming_loop_completes:
  assumes "set (map gid godown) \<subseteq> set (map gid (godownStock cur))"
  shows "fst (incoming_loop godown its cur) = Completed \<and>
     feeds (snd (incoming_loop godown its cur)) = feeds cur \<and>
     trucks (snd (incoming_loop godown its cur)) = trucks cur \<and>
     directTransfers (snd (incoming_loop godown its cur)) = directTransfers cur \<and>
     logs (snd (incoming_loop godown its cur)) = logs cur"
  using assms
proof (induction its arbitrary: cur)
  case Nil
  show ?case by simp
next
  case (Cons it its)
  note a = addOrIncreaseGodown_ids[OF Cons.prems, of "feedId it" "quantity it"]
  obtain cur' where st: "addOrIncreaseGodown godown (feedId it) (quantity it) cur = (Completed, cur')"
    using a by (cases "addOrIncreaseGodown godown (feedId it) (quantity it) cur") auto
  from a st Cons.prems have "set (map gid godown) \<subseteq> set (map gid (godownStock cur'))" by auto
  from Cons.IH[OF this] a st show ?case by simp
qed

subsection \<open>Truck movements\<close>

lemma submitTruckEntry_unfold:
  assumes "truckNo \<noteq> []" "its \<noteq> []"
  shows "submitTruckEntry godown truckNo type dests its db =
     (case (if type = ''incoming''
            then incoming_loop godown its (addDoc_trucks (movementRecord truckNo type dests its) db)
            else if type = ''outgoing''
            then (Completed,
                  outgoing_loop godown its (addDoc_trucks (movementRecord truckNo type dests its) db))
            else (Completed, addDoc_trucks (movementRecord truckNo type dests its) db)) of
        (Failed e, db2) \<Rightarrow> (Failed e, db2)
      | (Completed, db2) \<Rightarrow>
          (Completed,
           addDoc_logs (TruckEntryLog truckNo type (parse_destinations dests) its) db2))"
  using assms by (simp add: submitTruckEntry_def Let_def item_copy movementRecord_def)

lemma addDoc_trucks_fields:
  "godownStock (addDoc_trucks t db) = godownStock db \<and> feeds (addDoc_trucks t db) = feeds db \<and>
   logs (addDoc_trucks t db) = logs db \<and> directTransfers (addDoc_trucks t db) = directTransfers db \<and>
   trucks (addDoc_trucks t db) = trucks db @ [t\<lparr>tid := nextId db\<rparr>]"
  by (simp add: addDoc_trucks_def)

lemma addDoc_logs_fields:
  "godownStock (addDoc_logs l db) = godownStock db \<and> feeds (addDoc_logs l db) = feeds db \<and>
   trucks (addDoc_logs l db) = trucks db \<and> directTransfers (addDoc_logs l db) = directTransfers db \<and>
   map snd (logs (addDoc_logs l db)) = map snd (logs db) @ [l]"
  by (simp add: addDoc_logs_def)

lemma submit_incoming:
  assumes "truckNo \<noteq> []" "its \<noteq> []"
    and "fst (incoming_loop godown its (addDoc_trucks (movementRecord truckNo ''incoming'' dests its) db))
           = Completed"
  shows "submitTruckEntry godown truckNo ''incoming'' dests its db =
     (Completed,
      addDoc_logs (TruckEntryLog truckNo ''incoming'' (parse_destinations dests) its)
        (snd (incoming_loop godown its
                (addDoc_trucks (movementRecord truckNo ''incoming'' dests its) db))))"
  using assms(3) unfolding submitTruckEntry_unfold[OF assms(1,2)]
  by (cases "incoming_loop godown its (addDoc_trucks (movementRecord truckNo ''incoming'' dests its) db)")
    simp

lemma submit_outgoing:
  assumes "truckNo \<noteq> []" "its \<noteq> []"
  shows "submitTruckEntry godown truckNo ''outgoing'' dests its db =
     (Completed,
      addDoc_logs (TruckEntryLog truckNo ''outgoing'' (parse_destinations dests) its)
        (outgoing_loop godown its (addDoc_trucks (movementRecord truckNo ''outgoing'' dests its) db)))"
  unfolding submitTruckEntry_unfold[OF assms(1,2)] by simp

lemma submit_other:
  assumes "truckNo \<noteq> []" "its \<noteq> []" "type \<noteq> ''incoming''" "type \<noteq> ''outgoing''"
  shows "submitTruckEntry godown truckNo type dests its db =
     (Completed,
      addDoc_logs (TruckEntryLog truckNo type (parse_destinations dests) its)
        (addDoc_trucks (movementRecord truckNo type dests its) db))"
  unfolding submitTruckEntry_unfold[OF assms(1,2)] using assms(3,4) by simp

lemma decreaseGodown_ledger_only:
  "godownStock a = godownStock b \<Longrightarrow>
     fst (decreaseGodown godown f q a) = fst (decreaseGodown godown f q b) \<and>
     godownStock (snd (decreaseGodown godown f q a)) = godownStock (snd (decreaseGodown godown f q b))"
  by (auto simp: decreaseGodown_def updateDoc_godownStock_def split: option.splits)

lemma outgoing_loop_ledger_only:
  "godownStock a = godownStock b \<Longrightarrow>
     godownStock (outgoing_loop godown its a) = godownStock (outgoing_loop godown its b)"
proof (induction its arbitrary: a b)
  case Nil
  then show ?case by simp
next
  case (Cons it its)
  have step: "outgoing_loop godown (it # its) c
        = outgoing_loop godown its (snd (decreaseGodown godown (feedId it) (quantity it) c))" for c
    by (cases "decreaseGodown godown (feedId it) (quantity it) c") (auto split: outcome.splits)
  from decreaseGodown_ledger_only[OF Cons.prems]
  have "godownStock (snd (decreaseGodown godown (feedId it) (quantity it) a))
          = godownStock (snd (decreaseGodown godown (feedId it) (quantity it) b))" by blast
  from Cons.IH[OF this] show ?case unfolding step .
qed

lemma submit_sync:
  assumes "truckNo \<noteq> []" and "its \<noteq> []"
  shows "fst (submitTruckEntry (godownStock db) truckNo type dests its db) = Completed \<and>
     trucks (snd (submitTruckEntry (godownStock db) truckNo type dests its db))
       = trucks db @
           [\<lparr>tid = nextId db, truckNumber = truckNo, ttype = Some type,
             destinations = Some (parse_destinations dests), items = Some its, stock = None\<rparr>] \<and>
     map snd (logs (snd (submitTruckEntry (godownStock db) truckNo type dests its db)))
       = map snd (logs db) @ [TruckEntryLog truckNo type (parse_destinations dests) its] \<and>
     action (TruckEntryLog truckNo type (parse_destinations dests) its) = ''Truck Entry'' \<and>
     (type = ''outgoing'' \<longrightarrow>
        godownStock (snd (submitTruckEntry (godownStock db) truckNo type dests its db))
          = godownStock (outgoing_loop (godownStock db) (filter (covered (godownStock db)) its) db))"
proof -
  let ?g = "godownStock db"
  let ?db1 = "addDoc_trucks (movementRecord truckNo type dests its) db"
  have ids: "set (map gid ?g) \<subseteq> set (map gid (godownStock ?db1))"
    by (simp add: addDoc_trucks_fields)
  have rec: "trucks ?db1 = trucks db @
           [\<lparr>tid = nextId db, truckNumber = truckNo, ttype = Some type,
             destinations = Some (parse_destinations dests), items = Some its, stock = None\<rparr>]"
    by (simp add: addDoc_trucks_fields movementRecord_def)
  consider (inc) "type = ''incoming''" | (out) "type = ''outgoing''"
    | (other) "type \<noteq> ''incoming''" "type \<noteq> ''outgoing''" by blast
  then show ?thesis
  proof cases
    case inc
    note c = incoming_loop_completes[OF ids, of its]
    from c have ok: "fst (incoming_loop ?g its
        (addDoc_trucks (movementRecord truckNo ''incoming'' dests its) db)) = Completed"
      using inc by simp
    show ?thesis
      using c rec inc addDoc_trucks_fields[of "movementRecord truckNo type dests its" db]
      unfolding inc submit_incoming[OF assms ok]
      by (simp add: addDoc_logs_fields)
  next
    case out
    note f = outgoing_loop_frame[of ?g its ?db1]
    have "godownStock (outgoing_loop ?g its ?db1) = godownStock (outgoing_loop ?g its db)"
      by (rule outgoing_loop_ledger_only) (simp add: addDoc_trucks_fields)
    also have "\<dots> = godownStock (outgoing_loop ?g (filter (covered ?g) its) db)"
      using outgoing_loop_skips[of ?g its db] by simp
    finally show ?thesis
      using f rec out addDoc_trucks_fields[of "movementRecord truckNo type dests its" db]
      unfolding out submit_outgoing[OF assms]
      by (simp add: addDoc_logs_fields)
  next
    case other
    show ?thesis
      using rec other addDoc_trucks_fields[of "movementRecord truckNo type dests its" db]
      unfolding submit_other[OF assms other]
      by (simp add: addDoc_logs_fields)
  qed
qed

lemma kept_same: "trucks db' = trucks db \<Longrightarrow> movementsKept db db'"
  by (simp add: movementsKept_def)

lemma kept_addDoc_trucks: "movementsKept db (addDoc_trucks t db)"
  by (simp add: movementsKept_def addDoc_trucks_def)

lemma kept_updateDoc_trucks:
  assumes "updateDoc_trucks i upd db = Some db'" "\<And>t. movementFields (upd t) = movementFields t"
  shows "movementsKept db db'"
proof -
  have "map movementFields (map (\<lambda>d. if tid d = i then upd d else d) xs) = map movementFields xs" for xs
    by (induction xs) (auto simp: assms(2))
  with updateDoc_trucks_fields[OF assms(1)] show ?thesis
    by (simp add: movementsKept_def)
qed

lemma kept_trans:
  assumes "movementsKept a b" "movementsKept b c"
  shows "movementsKept a c"
proof -
  from assms(1) have "length (take (length (trucks a)) (trucks b)) = length (trucks a)"
    unfolding movementsKept_def by (metis length_map)
  then have le: "length (trucks a) \<le> length (trucks b)" by simp
  have "map movementFields (take (length (trucks a)) (trucks c))
      = take (length (trucks a)) (take (length (trucks b)) (map movementFields (trucks c)))"
    using le by (simp add: take_map min_def)
  also have "\<dots> = take (length (trucks a)) (map movementFields (trucks b))"
    using assms(2) by (simp add: movementsKept_def take_map)
  also have "\<dots> = map movementFields (trucks a)"
    using assms(1) by (simp add: movementsKept_def take_map)
  finally show ?thesis by (simp add: movementsKept_def)
qed

lemma kept_register: "movementsKept db (snd (registerSourceTruckLoad n xs db))"
proof -
  have upd: "movementFields (t\<lparr>truckNumber := n, stock := Some ys\<rparr>) = movementFields t" for t ys
    by (simp add: movementFields_def)
  have logs: "movementsKept a (addDoc_logs l b)" if "movementsKept a b" for a b l
    using that by (simp add: movementsKept_def addDoc_logs_def)
  show ?thesis
  proof (cases "n = [] \<or> xs = []")
    case True
    then show ?thesis by (auto simp: registerSourceTruckLoad_def intro: kept_same)
  next
    case False
    show ?thesis
    proof (cases "query_trucks n db")
      case Nil
      with False show ?thesis
        by (auto simp: registerSourceTruckLoad_def intro!: logs kept_addDoc_trucks)
    next
      case (Cons docRef rest)
      show ?thesis
      proof (cases "updateDoc_trucks (tid docRef)
                      (\<lambda>t. t\<lparr>truckNumber := n, stock := Some xs\<rparr>) db")
        case None
        with False Cons show ?thesis
          by (auto simp: registerSourceTruckLoad_def item_copy intro: kept_same)
      next
        case (Some db1)
        from kept_updateDoc_trucks[OF Some upd] have "movementsKept db db1" .
        with False Cons Some show ?thesis
          by (auto simp: registerSourceTruckLoad_def item_copy intro: logs)
      qed
    qed
  qed
qed

lemma kept_transfer: "movementsKept db (snd (transferFromSourceToDest s d xs db))"
proof -
  have upd: "movementFields (t\<lparr>stock := Some ys\<rparr>) = movementFields t" for t ys
    by (simp add: movementFields_def)
  let ?db1 = "(case query_trucks d db of
                       _ # _ \<Rightarrow> db
                     | [] \<Rightarrow> addDoc_trucks
                         \<lparr>tid = 0, truckNumber = d, ttype = None, destinations = None,
                          items = None, stock = Some []\<rparr> db)"
  have k1: "movementsKept db ?db1"
    by (auto split: list.splits intro: kept_addDoc_trucks kept_same)
  have k2: "movementsKept db db2" if "updateDoc_trucks i (\<lambda>t. t\<lparr>stock := Some ys\<rparr>) ?db1 = Some db2"
    for i ys db2
    using kept_trans[OF k1 kept_updateDoc_trucks[OF that upd]] .
  have k3: "movementsKept db db3"
    if "updateDoc_trucks i (\<lambda>t. t\<lparr>stock := Some ys\<rparr>) ?db1 = Some db2"
      "updateDoc_trucks j (\<lambda>t. t\<lparr>stock := Some zs\<rparr>) db2 = Some db3"
    for i j ys zs db2 db3
    using kept_trans[OF k2[OF that(1)] kept_updateDoc_trucks[OF that(2) upd]] .
  have fin: "movementsKept a (addDoc_logs l (addDoc_directTransfers x y z b))" if "movementsKept a b"
    for a b l x y z
    using that by (simp add: movementsKept_def addDoc_logs_def addDoc_directTransfers_def)
  show ?thesis
  proof (cases "s = [] \<or> d = [] \<or> xs = []")
    case True
    then show ?thesis by (auto simp: transferFromSourceToDest_def intro: kept_same)
  next
    case False
    show ?thesis
    proof (cases "query_trucks s db")
      case Nil
      with False show ?thesis by (auto simp: transferFromSourceToDest_def intro: kept_same)
    next
      case (Cons srcData rest)
      show ?thesis
      proof (cases "query_trucks d ?db1")
        case Nil
        with False Cons k1 show ?thesis by (simp add: transferFromSourceToDest_def)
      next
        case dst: (Cons destData rest')
        show ?thesis
        proof (cases "process_items xs (stockOf srcData) (stockOf destData)")
          case (Inl f)
          with False Cons dst k1 show ?thesis by (simp add: transferFromSourceToDest_def)
        next
          case (Inr p)
          obtain ys zs where p: "p = (ys, zs)" by (cases p)
          show ?thesis
          proof (cases "updateDoc_trucks (tid srcData) (\<lambda>t. t\<lparr>stock := Some ys\<rparr>) ?db1")
            case None
            with False Cons dst Inr p k1 show ?thesis by (simp add: transferFromSourceToDest_def)
          next
            case u1: (Some db2)
            show ?thesis
            proof (cases "updateDoc_trucks (tid destData) (\<lambda>t. t\<lparr>stock := Some zs\<rparr>) db2")
              case None
              with False Cons dst Inr p u1 k2[OF u1] show ?thesis
                by (simp add: transferFromSourceToDest_def)
            next
              case (Some db3)
              with False Cons dst Inr p u1 fin[OF k3[OF u1 Some]] show ?thesis
                by (simp add: transferFromSourceToDest_def)
            qed
          qed
        qed
      qed
    qed
  qed
qed

text \<open>
  Claim C8. Every truck movement submitted with a truck number and at least one item, on
  a page that shows the store as it is, completes; it appends exactly one movement
  record, which carries the items as requested, and exactly one log entry with the
  action \<open>Truck Entry\<close>; for an outgoing movement the ledger ends as if only the covered
  items had been submitted, and as it was when no item is covered, so that a failed
  deduction neither stops the handler nor undoes the deductions of the other items; and
  no later load registration or transfer changes the type, destinations or items of a
  truck record.
\<close>

theorem truck_entry_recorded:
  assumes "truckNo \<noteq> []" and "its \<noteq> []"
  shows "fst (submitTruckEntry (godownStock db) truckNo type dests its db) = Completed \<and>
     trucks (snd (submitTruckEntry (godownStock db) truckNo type dests its db))
       = trucks db @
           [\<lparr>tid = nextId db, truckNumber = truckNo, ttype = Some type,
             destinations = Some (parse_destinations dests), items = Some its, stock = None\<rparr>] \<and>
     map snd (logs (snd (submitTruckEntry (godownStock db) truckNo type dests its db)))
       = map snd (logs db) @ [TruckEntryLog truckNo type (parse_destinations dests) its] \<and>
     action (TruckEntryLog truckNo type (parse_destinations dests) its) = ''Truck Entry'' \<and>
     (type = ''outgoing'' \<and> filter (covered (godownStock db)) its \<noteq> [] \<longrightarrow>
        godownStock (snd (submitTruckEntry (godownStock db) truckNo type dests its db))
          = godownStock (snd (submitTruckEntry (godownStock db) truckNo type dests
                                (filter (covered (godownStock db)) its) db))) \<and>
     (type = ''outgoing'' \<and> filter (covered (godownStock db)) its = [] \<longrightarrow>
        godownStock (snd (submitTruckEntry (godownStock db) truckNo type dests its db))
          = godownStock db) \<and>
     (\<forall>n xs. movementsKept (snd (submitTruckEntry (godownStock db) truckNo type dests its db))
        (snd (registerSourceTruckLoad n xs
               (snd (submitTruckEntry (godownStock db) truckNo type dests its db))))) \<and>
     (\<forall>s d xs. movementsKept (snd (submitTruckEntry (godownStock db) truckNo type dests its db))
        (snd (transferFromSourceToDest s d xs
               (snd (submitTruckEntry (godownStock db) truckNo type dests its db)))))"
proof -
  let ?g = "godownStock db"
  note all = submit_sync[OF assms, of db type dests]
  have a: "godownStock (snd (submitTruckEntry ?g truckNo type dests its db))
          = godownStock (snd (submitTruckEntry ?g truckNo type dests (filter (covered ?g) its) db))"
    if "type = ''outgoing''" "filter (covered ?g) its \<noteq> []"
  proof -
    from submit_sync[OF assms(1) that(2), of db type dests] that(1)
    have "godownStock (snd (submitTruckEntry ?g truckNo type dests (filter (covered ?g) its) db))
        = godownStock (outgoing_loop ?g (filter (covered ?g) (filter (covered ?g) its)) db)"
      by blast
    also have "\<dots> = godownStock (outgoing_loop ?g (filter (covered ?g) its) db)" by simp
    finally show ?thesis using all that(1) by simp
  qed
  have b: "godownStock (snd (submitTruckEntry ?g truckNo type dests its db)) = godownStock db"
    if "type = ''outgoing''" "filter (covered ?g) its = []"
    using all that by simp
  show ?thesis
    using all a b kept_register kept_transfer by blast
qed

theorem truck_entry_recorded_witness:
  "submitTruckEntry (godownStock ledger_example) ''TRK1'' ''outgoing'' []
       [\<lparr>feedId = 0, quantity = 6\<rparr>] ledger_example
     = (Completed,
        ledger_example
          \<lparr>trucks := [\<lparr>tid = 2, truckNumber = ''TRK1'', ttype = Some ''outgoing'',
                        destinations = Some [], items = Some [\<lparr>feedId = 0, quantity = 6\<rparr>],
                        stock = None\<rparr>],
           logs := [(3, TruckEntryLog ''TRK1'' ''outgoing'' [] [\<lparr>feedId = 0, quantity = 6\<rparr>])],
           nextId := 4\<rparr>) \<and>
   godownStock (snd (submitTruckEntry (godownStock ledger_example) ''TRK1'' ''outgoing'' []
       [\<lparr>feedId = 7, quantity = 1\<rparr>, \<lparr>feedId = 0, quantity = 2\<rparr>] ledger_example))
     = [\<lparr>feedId = 0, quantity = 3, gid = 1\<rparr>] \<and>
   map (the \<circ> items)
     (trucks (snd (submitTruckEntry (godownStock ledger_example) ''TRK1'' ''outgoing'' []
       [\<lparr>feedId = 7, quantity = 1\<rparr>, \<lparr>feedId = 0, quantity = 2\<rparr>] ledger_example)))
     = [[\<lparr>feedId = 7, quantity = 1\<rparr>, \<lparr>feedId = 0, quantity = 2\<rparr>]]"
proof -
  have c1: "filter (covered (godownStock ledger_example)) [\<lparr>feedId = 0, quantity = 6\<rparr>] = []"
    by (simp add: covered_def ledger_example_def)
  have c2: "filter (covered (godownStock ledger_example))
              [\<lparr>feedId = 7, quantity = 1\<rparr>, \<lparr>feedId = 0, quantity = 2\<rparr>]
            = [\<lparr>feedId = 0, quantity = 2\<rparr>]"
    by (simp add: covered_def ledger_example_def)
  have run: "godownStock (snd (submitTruckEntry (godownStock ledger_example) ''TRK1'' ''outgoing'' []
               [\<lparr>feedId = 0, quantity = 2\<rparr>] ledger_example))
             = [\<lparr>feedId = 0, quantity = 3, gid = 1\<rparr>]"
    by (simp add: submitTruckEntry_def decreaseGodown_def updateDoc_godownStock_def
        addDoc_trucks_def addDoc_logs_def ledger_example_def Let_def)
  note t1 = truck_entry_recorded
    [of "''TRK1''" "[\<lparr>feedId = 0, quantity = 6\<rparr>]" ledger_example "''outgoing''" "[]"]
  note t2 = truck_entry_recorded
    [of "''TRK1''" "[\<lparr>feedId = 7, quantity = 1\<rparr>, \<lparr>feedId = 0, quantity = 2\<rparr>]"
        ledger_example "''outgoing''" "[]"]
  have "submitTruckEntry (godownStock ledger_example) ''TRK1'' ''outgoing'' []
       [\<lparr>feedId = 0, quantity = 6\<rparr>] ledger_example
     = (Completed,
        ledger_example
          \<lparr>trucks := [\<lparr>tid = 2, truckNumber = ''TRK1'', ttype = Some ''outgoing'',
                        destinations = Some [], items = Some [\<lparr>feedId = 0, quantity = 6\<rparr>],
                        stock = None\<rparr>],
           logs := [(3, TruckEntryLog ''TRK1'' ''outgoing'' [] [\<lparr>feedId = 0, quantity = 6\<rparr>])],
           nextId := 4\<rparr>)"
    using t1 c1
    by (simp add: submitTruckEntry_def decreaseGodown_def parse_destinations_def
        addDoc_trucks_def addDoc_logs_def ledger_example_def Let_def)
  moreover from t2 c2 run
  have "godownStock (snd (submitTruckEntry (godownStock ledger_example) ''TRK1'' ''outgoing'' []
       [\<lparr>feedId = 7, quantity = 1\<rparr>, \<lparr>feedId = 0, quantity = 2\<rparr>] ledger_example))
     = [\<lparr>feedId = 0, quantity = 3, gid = 1\<rparr>]"
    by simp
  moreover from t2
  have "map (the \<circ> items)
     (trucks (snd (submitTruckEntry (godownStock ledger_example) ''TRK1'' ''outgoing'' []
       [\<lparr>feedId = 7, quantity = 1\<rparr>, \<lparr>feedId = 0, quantity = 2\<rparr>] ledger_example)))
     = [[\<lparr>feedId = 7, quantity = 1\<rparr>, \<lparr>feedId = 0, quantity = 2\<rparr>]]"
    by (simp add: ledger_example_def)
  ultimately show ?thesis by simp
qed

subsection \<open>What a truck movement does to the ledger\<close>

lemma submit_incoming_distinct:
  assumes wf: "wf_store db" and ne: "truckNo \<noteq> []" "its \<noteq> []" and d: "distinct (map feedId its)"
  shows "fst (submitTruckEntry (godownStock db) truckNo ''incoming'' dests its db) = Completed \<and>
     (\<forall>f. shownQuantity
            (godownStock (snd (submitTruckEntry (godownStock db) truckNo ''incoming'' dests its db))) f
          = shownQuantity (godownStock db) f + requested its f) \<and>
     (distinct (map feedId (godownStock db)) \<longrightarrow>
        distinct (map feedId
          (godownStock (snd (submitTruckEntry (godownStock db) truckNo ''incoming'' dests its db)))))"
proof -
  let ?db1 = "addDoc_trucks (movementRecord truckNo ''incoming'' dests its) db"
  have wf1: "wf_store ?db1" using wf by (rule wf_addDoc_trucks)
  have g1: "godownStock ?db1 = godownStock db" by (simp add: addDoc_trucks_fields)
  have snap: "\<forall>i \<in> set its. find (\<lambda>g. feedId g = feedId i) (godownStock ?db1)
                            = find (\<lambda>g. feedId g = feedId i) (godownStock db)"
    by (simp add: g1)
  note loop = incoming_loop_distinct[OF wf1 d snap]
  from loop have ok: "fst (incoming_loop (godownStock db) its ?db1) = Completed" by blast
  show ?thesis
    unfolding submit_incoming[OF ne ok] using loop by (simp add: addDoc_logs_fields g1)
qed

lemma submit_outgoing_distinct:
  assumes wf: "wf_store db" and ne: "truckNo \<noteq> []" "its \<noteq> []" and d: "distinct (map feedId its)"
  shows "\<forall>f. shownQuantity
            (godownStock (snd (submitTruckEntry (godownStock db) truckNo ''outgoing'' dests its db))) f
          = shownQuantity (godownStock db) f - requested (filter (covered (godownStock db)) its) f"
proof -
  let ?db1 = "addDoc_trucks (movementRecord truckNo ''outgoing'' dests its) db"
  have wf1: "wf_store ?db1" using wf by (rule wf_addDoc_trucks)
  have g1: "godownStock ?db1 = godownStock db" by (simp add: addDoc_trucks_fields)
  have snap: "\<forall>i \<in> set its. find (\<lambda>g. feedId g = feedId i) (godownStock ?db1)
                            = find (\<lambda>g. feedId g = feedId i) (godownStock db)"
    by (simp add: g1)
  note loop = outgoing_loop_distinct[OF wf1 d snap]
  show ?thesis
    unfolding submit_outgoing[OF ne] using loop by (simp add: addDoc_logs_fields g1)
qed

lemma map_feedId_bump:
  "map feedId (map (\<lambda>i. if feedId i = f then i\<lparr>quantity := quantity i + q\<rparr> else i) xs)
     = map feedId (xs :: item list)"
  by (induction xs) auto

lemma addItem_distinct:
  "distinct (map feedId prev) \<Longrightarrow> distinct (map feedId (addItem selectedFeed qty prev))"
proof (cases selectedFeed; cases qty)
  fix f q assume sq: "selectedFeed = Some f" "qty = Some q" and d: "distinct (map feedId prev)"
  show ?thesis
  proof (cases "find (\<lambda>i. feedId i = f) prev")
    case None
    then have "f \<notin> set (map feedId prev)" by (auto simp: find_None_iff)
    with None sq d show ?thesis by (simp add: addItem_def)
  next
    case (Some existing)
    with sq d show ?thesis by (simp add: addItem_def map_feedId_bump del: map_map)
  qed
qed (simp_all add: addItem_def)

lemma removeItem_distinct:
  "distinct (map feedId prev) \<Longrightarrow> distinct (map feedId (removeItem f prev))"
  by (simp add: removeItem_def distinct_map_filter)

lemma formStep_distinct:
  "distinct (map feedId prev) \<Longrightarrow> distinct (map feedId (formStep a prev))"
  by (cases a) (simp_all add: addItem_distinct removeItem_distinct)

lemma fold_formStep_distinct:
  "distinct (map feedId prev) \<Longrightarrow> distinct (map feedId (fold formStep acts prev))"
  by (induction acts arbitrary: prev) (simp_all add: formStep_distinct)

lemma formItems_distinct: "distinct (map feedId (formItems acts))"
  by (simp add: formItems_def fold_formStep_distinct)

lemma requested_bump:
  assumes "distinct (map feedId (xs :: item list))" "find (\<lambda>i. feedId i = f) xs = Some e"
  shows "requested (map (\<lambda>i. if feedId i = f then i\<lparr>quantity := quantity i + q\<rparr> else i) xs) g
           = requested xs g + (if g = f then q else 0)"
  using assms
proof (induction xs)
  case Nil
  then show ?case by simp
next
  case (Cons x xs)
  show ?case
  proof (cases "feedId x = f")
    case True
    with Cons.prems(1) have "f \<notin> set (map feedId xs)" by auto
    then have "map (\<lambda>i. if feedId i = f then i\<lparr>quantity := quantity i + q\<rparr> else i) xs = xs"
      by (induction xs) auto
    with True show ?thesis by (auto simp: requested_Cons)
  next
    case False
    with Cons.prems have "distinct (map feedId xs)" "find (\<lambda>i. feedId i = f) xs = Some e" by auto
    from Cons.IH[OF this] False show ?thesis by (simp add: requested_Cons)
  qed
qed

lemma requested_append:
  "requested (xs @ ys) g = requested xs g + requested ys g"
  by (simp add: requested_def)

lemma requested_addItem:
  assumes "distinct (map feedId prev)"
  shows "requested (addItem (Some f) (Some q) prev) g = requested prev g + (if g = f then q else 0)"
proof (cases "find (\<lambda>i. feedId i = f) prev")
  case None
  then show ?thesis by (simp add: addItem_def requested_append) (simp add: requested_def)
next
  case (Some e)
  with requested_bump[OF assms Some] show ?thesis by (simp add: addItem_def)
qed

lemma requested_fold_adds:
  assumes "distinct (map feedId prev)"
  shows "requested (fold formStep (map (\<lambda>a. AddItem (Some (fst a)) (Some (snd a))) adds) prev) g
           = requested prev g + added adds g"
  using assms
proof (induction adds arbitrary: prev)
  case Nil
  then show ?case by (simp add: added_def)
next
  case (Cons a adds)
  have d: "distinct (map feedId (addItem (Some (fst a)) (Some (snd a)) prev))"
    using Cons.prems by (rule addItem_distinct)
  show ?case
    using Cons.IH[OF d] requested_addItem[OF Cons.prems, of "fst a" "snd a" g]
    by (auto simp: added_def)
qed

lemma requested_formItems_adds:
  "requested (formItems (map (\<lambda>a. AddItem (Some (fst a)) (Some (snd a))) adds)) g = added adds g"
  using requested_fold_adds[of "[]" adds g] by (simp add: formItems_def requested_def)

lemma addItem_nonempty: "addItem (Some f) (Some q) prev \<noteq> []"
  by (cases prev) (auto simp: addItem_def split: option.splits)

lemma fold_adds_nonempty:
  "prev \<noteq> [] \<Longrightarrow> fold formStep (map (\<lambda>a. AddItem (Some (fst a)) (Some (snd a))) adds) prev \<noteq> []"
  by (induction adds arbitrary: prev) (simp_all add: addItem_nonempty)

lemma formItems_adds_nonempty:
  "adds \<noteq> [] \<Longrightarrow> formItems (map (\<lambda>a. AddItem (Some (fst a)) (Some (snd a))) adds) \<noteq> []"
  by (cases adds) (simp_all add: formItems_def fold_adds_nonempty addItem_nonempty)

lemma TruckForm_submit_eq:
  "TruckForm_submit godown truckNo type dests its db
     = submitTruckEntry godown truckNo type dests its db"
  by (simp add: TruckForm_submit_def submitTruckEntry_def)

text \<open>
  Claim C2. A truck movement reaches the handler through the entry form, whose item list
  names every feed once: a further addition for a feed is added to the item that names
  it. For every sequence of additions and removals that leaves at least one item,
  submitted with a truck number from a page that shows the store as it is, an incoming
  movement leaves every feed with its starting quantity plus the quantity the items
  list for it, and an outgoing movement whose items are all covered leaves every feed
  with its starting quantity minus that quantity. After additions alone, the quantity
  the items list for a feed is the sum of all quantities added for it, so several
  additions naming the same feed all count, and one addition or more leaves at least
  one item. The same holds of the handler itself on
  every item list that names pairwise distinct feeds.
\<close>

theorem truck_entry_ledger:
  assumes "wf_store db" and "truckNo \<noteq> []"
  shows "(\<forall>acts. formItems acts \<noteq> [] \<longrightarrow>
        (\<forall>f. shownQuantity
               (godownStock (snd (TruckForm_submit (godownStock db) truckNo ''incoming'' dests
                                    (formItems acts) db))) f
             = shownQuantity (godownStock db) f + requested (formItems acts) f) \<and>
        ((\<forall>i \<in> set (formItems acts). covered (godownStock db) i) \<longrightarrow>
         (\<forall>f. shownQuantity
               (godownStock (snd (TruckForm_submit (godownStock db) truckNo ''outgoing'' dests
                                    (formItems acts) db))) f
             = shownQuantity (godownStock db) f - requested (formItems acts) f))) \<and>
     (\<forall>adds f. requested (formItems (map (\<lambda>a. AddItem (Some (fst a)) (Some (snd a))) adds)) f
                  = added adds f) \<and>
     (\<forall>adds. adds \<noteq> [] \<longrightarrow>
        formItems (map (\<lambda>a. AddItem (Some (fst a)) (Some (snd a))) adds) \<noteq> []) \<and>
     (\<forall>its. its \<noteq> [] \<and> distinct (map feedId its) \<longrightarrow>
        (\<forall>f. shownQuantity
               (godownStock (snd (submitTruckEntry (godownStock db) truckNo ''incoming'' dests its db))) f
             = shownQuantity (godownStock db) f + requested its f) \<and>
        ((\<forall>i \<in> set its. covered (godownStock db) i) \<longrightarrow>
         (\<forall>f. shownQuantity
               (godownStock (snd (submitTruckEntry (godownStock db) truckNo ''outgoing'' dests its db))) f
             = shownQuantity (godownStock db) f - requested its f)))"
proof -
  have handler: "(\<forall>f. shownQuantity
               (godownStock (snd (submitTruckEntry (godownStock db) truckNo ''incoming'' dests its db))) f
             = shownQuantity (godownStock db) f + requested its f) \<and>
        ((\<forall>i \<in> set its. covered (godownStock db) i) \<longrightarrow>
         (\<forall>f. shownQuantity
               (godownStock (snd (submitTruckEntry (godownStock db) truckNo ''outgoing'' dests its db))) f
             = shownQuantity (godownStock db) f - requested its f))"
    if ne: "its \<noteq> []" and d: "distinct (map feedId its)" for its
  proof (intro conjI impI)
    show "\<forall>f. shownQuantity
            (godownStock (snd (submitTruckEntry (godownStock db) truckNo ''incoming'' dests its db))) f
          = shownQuantity (godownStock db) f + requested its f"
      using submit_incoming_distinct[OF assms ne d] by blast
  next
    assume "\<forall>i \<in> set its. covered (godownStock db) i"
    then have "filter (covered (godownStock db)) its = its" by simp
    with submit_outgoing_distinct[OF assms ne d, of dests]
    show "\<forall>f. shownQuantity
            (godownStock (snd (submitTruckEntry (godownStock db) truckNo ''outgoing'' dests its db))) f
          = shownQuantity (godownStock db) f - requested its f"
      by simp
  qed
  have form: "(\<forall>f. shownQuantity
               (godownStock (snd (TruckForm_submit (godownStock db) truckNo ''incoming'' dests
                                    (formItems acts) db))) f
             = shownQuantity (godownStock db) f + requested (formItems acts) f) \<and>
        ((\<forall>i \<in> set (formItems acts). covered (godownStock db) i) \<longrightarrow>
         (\<forall>f. shownQuantity
               (godownStock (snd (TruckForm_submit (godownStock db) truckNo ''outgoing'' dests
                                    (formItems acts) db))) f
             = shownQuantity (godownStock db) f - requested (formItems acts) f))"
    if "formItems acts \<noteq> []" for acts
    unfolding TruckForm_submit_eq using handler[OF that formItems_distinct] .
  from form handler requested_formItems_adds formItems_adds_nonempty show ?thesis by blast
qed

theorem truck_entry_ledger_witness:
  "formItems [AddItem (Some 0) (Some 3), AddItem (Some 0) (Some 4)] = [\<lparr>feedId = 0, quantity = 7\<rparr>] \<and>
   shownQuantity (godownStock ledger_example) 0 = 5 \<and>
   shownQuantity (godownStock (snd (TruckForm_submit (godownStock ledger_example) ''TRK1''
       ''incoming'' [] (formItems [AddItem (Some 0) (Some 3), AddItem (Some 0) (Some 4)])
       ledger_example))) 0
     = 12 \<and>
   shownQuantity (godownStock (snd (TruckForm_submit (godownStock ledger_example) ''TRK1''
       ''outgoing'' [] (formItems [AddItem (Some 0) (Some 1), AddItem (Some 0) (Some 2)])
       ledger_example))) 0
     = 2 \<and>
   shownQuantity (godownStock (snd (submitTruckEntry (godownStock ledger_example) ''TRK1''
       ''incoming'' [] [\<lparr>feedId = 0, quantity = 3\<rparr>, \<lparr>feedId = 7, quantity = 4\<rparr>] ledger_example))) 0
     = 8 \<and>
   shownQuantity (godownStock (snd (submitTruckEntry (godownStock ledger_example) ''TRK1''
       ''incoming'' [] [\<lparr>feedId = 0, quantity = 3\<rparr>, \<lparr>feedId = 7, quantity = 4\<rparr>] ledger_example))) 7
     = 4 \<and>
   shownQuantity (godownStock (snd (submitTruckEntry (godownStock ledger_example) ''TRK1''
       ''outgoing'' [] [\<lparr>feedId = 0, quantity = 2\<rparr>] ledger_example))) 0
     = 3"
proof -
  have wf: "wf_store ledger_example" by (simp add: wf_store_def ledger_example_def)
  have ne: "''TRK1'' \<noteq> []" by simp
  have before: "shownQuantity (godownStock ledger_example) 0 = 5"
    "shownQuantity (godownStock ledger_example) 7 = 0"
    by (simp_all add: shownQuantity_def ledger_example_def)
  have in_items: "formItems [AddItem (Some 0) (Some 3), AddItem (Some 0) (Some 4)]
                    = [\<lparr>feedId = 0, quantity = 7\<rparr>]"
    by (simp add: formItems_def addItem_def)
  have out_items: "formItems [AddItem (Some 0) (Some 1), AddItem (Some 0) (Some 2)]
                    = [\<lparr>feedId = 0, quantity = 3\<rparr>]"
    by (simp add: formItems_def addItem_def)
  have cov3: "\<forall>i \<in> set [\<lparr>feedId = 0, quantity = 3\<rparr>]. covered (godownStock ledger_example) i"
    by (simp add: covered_def ledger_example_def)
  have cov2: "\<forall>i \<in> set [\<lparr>feedId = 0, quantity = 2\<rparr>]. covered (godownStock ledger_example) i"
    by (simp add: covered_def ledger_example_def)
  note form = truck_entry_ledger [OF wf ne, of "[]", THEN conjunct1, rule_format]
  note handler = truck_entry_ledger [OF wf ne, of "[]", THEN conjunct2, THEN conjunct2,
      THEN conjunct2, rule_format]
  have a: "shownQuantity (godownStock (snd (TruckForm_submit (godownStock ledger_example) ''TRK1''
       ''incoming'' [] (formItems [AddItem (Some 0) (Some 3), AddItem (Some 0) (Some 4)])
       ledger_example))) 0 = 12"
    using form [of "[AddItem (Some 0) (Some 3), AddItem (Some 0) (Some 4)]", THEN conjunct1,
        rule_format, of 0] before
    by (simp add: in_items requested_def)
  have b: "shownQuantity (godownStock (snd (TruckForm_submit (godownStock ledger_example) ''TRK1''
       ''outgoing'' [] (formItems [AddItem (Some 0) (Some 1), AddItem (Some 0) (Some 2)])
       ledger_example))) 0 = 2"
    using form [of "[AddItem (Some 0) (Some 1), AddItem (Some 0) (Some 2)]", THEN conjunct2,
        rule_format, of 0] before cov3
    by (simp add: out_items requested_def)
  have c: "shownQuantity (godownStock (snd (submitTruckEntry (godownStock ledger_example) ''TRK1''
       ''incoming'' [] [\<lparr>feedId = 0, quantity = 3\<rparr>, \<lparr>feedId = 7, quantity = 4\<rparr>] ledger_example))) 0
     = 8"
   and d: "shownQuantity (godownStock (snd (submitTruckEntry (godownStock ledger_example) ''TRK1''
       ''incoming'' [] [\<lparr>feedId = 0, quantity = 3\<rparr>, \<lparr>feedId = 7, quantity = 4\<rparr>] ledger_example))) 7
     = 4"
    using handler [of "[\<lparr>feedId = 0, quantity = 3\<rparr>, \<lparr>feedId = 7, quantity = 4\<rparr>]"] before
    by (simp_all add: requested_def)
  have e: "shownQuantity (godownStock (snd (submitTruckEntry (godownStock ledger_example) ''TRK1''
       ''outgoing'' [] [\<lparr>feedId = 0, quantity = 2\<rparr>] ledger_example))) 0
     = 3"
    using handler [of "[\<lparr>feedId = 0, quantity = 2\<rparr>]"] cov2 before
    by (simp add: requested_def)
  from in_items before(1) a b c d e show ?thesis by simp
qed

text \<open>
  A list that names one feed twice cannot be submitted. Given one directly, the handler
  would apply every item to the quantity the feed had at the start, because the helpers
  read the ledger from the page's state, which stays what it was while the handler
  runs: with five bags of feed 0, the incoming items \<open>[(0, 3), (0, 4)]\<close> would leave 9
  bags and the covered outgoing items \<open>[(0, 1), (0, 2)]\<close> 3 bags.
\<close>

lemma handler_same_feed_twice:
  "shownQuantity (godownStock ledger_example) 0 = 5 \<and>
   shownQuantity (godownStock (snd (submitTruckEntry (godownStock ledger_example) ''TRK1''
       ''incoming'' [] [\<lparr>feedId = 0, quantity = 3\<rparr>, \<lparr>feedId = 0, quantity = 4\<rparr>] ledger_example))) 0
     = 9 \<and>
   shownQuantity (godownStock (snd (submitTruckEntry (godownStock ledger_example) ''TRK1''
       ''incoming'' [] [\<lparr>feedId = 0, quantity = 3\<rparr>, \<lparr>feedId = 0, quantity = 4\<rparr>] ledger_example))) 0
     \<noteq> shownQuantity (godownStock ledger_example) 0
         + requested [\<lparr>feedId = 0, quantity = 3\<rparr>, \<lparr>feedId = 0, quantity = 4\<rparr>] 0 \<and>
   requested [\<lparr>feedId = 0, quantity = 3\<rparr>, \<lparr>feedId = 0, quantity = 4\<rparr>] 0 = 7 \<and>
   covered (godownStock ledger_example) \<lparr>feedId = 0, quantity = 1\<rparr> \<and>
   covered (godownStock ledger_example) \<lparr>feedId = 0, quantity = 2\<rparr> \<and>
   shownQuantity (godownStock (snd (submitTruckEntry (godownStock ledger_example) ''TRK1''
       ''outgoing'' [] [\<lparr>feedId = 0, quantity = 1\<rparr>, \<lparr>feedId = 0, quantity = 2\<rparr>] ledger_example))) 0
     = 3 \<and>
   shownQuantity (godownStock (snd (submitTruckEntry (godownStock ledger_example) ''TRK1''
       ''outgoing'' [] [\<lparr>feedId = 0, quantity = 1\<rparr>, \<lparr>feedId = 0, quantity = 2\<rparr>] ledger_example))) 0
     \<noteq> shownQuantity (godownStock ledger_example) 0
         - requested [\<lparr>feedId = 0, quantity = 1\<rparr>, \<lparr>feedId = 0, quantity = 2\<rparr>] 0 \<and>
   requested [\<lparr>feedId = 0, quantity = 1\<rparr>, \<lparr>feedId = 0, quantity = 2\<rparr>] 0 = 3"
  by (simp add: submitTruckEntry_def Let_def addOrIncreaseGodown_def decreaseGodown_def
      updateDoc_godownStock_def addDoc_trucks_def addDoc_logs_def ledger_example_def
      shownQuantity_def requested_def covered_def)

subsection \<open>One ledger entry per feed\<close>

lemma godownStock_delete_fold:
  "godownStock (fold (\<lambda>s. deleteDoc_godownStock (gid s)) xs db)
     = filter (\<lambda>d. gid d \<notin> set (map gid xs)) (godownStock db)"
proof (induction xs arbitrary: db)
  case Nil
  show ?case by simp
next
  case (Cons x xs)
  have step: "godownStock (deleteDoc_godownStock (gid x) db)
                = filter (\<lambda>d. gid d \<noteq> gid x) (godownStock db)"
    by (simp add: deleteDoc_godownStock_def)
  have "godownStock (fold (\<lambda>s. deleteDoc_godownStock (gid s)) (x # xs) db)
      = filter (\<lambda>d. gid d \<notin> set (map gid xs)) (filter (\<lambda>d. gid d \<noteq> gid x) (godownStock db))"
    using Cons.IH[of "deleteDoc_godownStock (gid x) db"] step by simp
  also have "\<dots> = filter (\<lambda>d. gid d \<notin> set (map gid (x # xs))) (godownStock db)"
    by (auto intro: filter_cong)
  finally show ?case .
qed

lemma handleDeleteFeed_ledger:
  "godownStock (handleDeleteFeed godown fId db)
     = filter (\<lambda>d. gid d \<notin> set (map gid (filter (\<lambda>g. feedId g = fId) godown))) (godownStock db)"
  by (simp add: handleDeleteFeed_def godownStock_delete_fold deleteDoc_feeds_def)



lemma submit_rejected:
  "truckNo = [] \<or> its = [] \<Longrightarrow>
     submitTruckEntry godown truckNo type dests its db = (Failed ValidationError, db)"
  by (simp add: submitTruckEntry_def)





text \<open>
  A list that names one feed twice cannot be submitted. Given one directly on the empty
  store, the handler would find no entry for feed 0 in the page's state either time and
  create two entries for it.
\<close>

lemma handler_duplicates_feed:
  "distinct (map feedId (godownStock empty_store)) \<and>
   godownStock (snd (submitTruckEntry (godownStock empty_store) ''TRK1'' ''incoming'' []
       [\<lparr>feedId = 0, quantity = 3\<rparr>, \<lparr>feedId = 0, quantity = 4\<rparr>] empty_store))
     = [\<lparr>feedId = 0, quantity = 3, gid = 1\<rparr>, \<lparr>feedId = 0, quantity = 4, gid = 2\<rparr>] \<and>
   \<not> distinct (map feedId
       (godownStock (snd (submitTruckEntry (godownStock empty_store) ''TRK1'' ''incoming'' []
          [\<lparr>feedId = 0, quantity = 3\<rparr>, \<lparr>feedId = 0, quantity = 4\<rparr>] empty_store))))"
  by (simp add: submitTruckEntry_def Let_def addOrIncreaseGodown_def
      addDoc_godownStock_def addDoc_trucks_def addDoc_logs_def empty_store_def)

subsection \<open>Every handler keeps the identifiers unique\<close>

text \<open>
  The empty store has unique identifiers, and no handler, whatever page state it reads,
  breaks that: the assumption \<open>wf_store\<close> of the theorems above holds in every store
  the handlers can produce from the empty one.
\<close>

lemma wf_empty_store: "wf_store empty_store"
  by (simp add: wf_store_def empty_store_def)

lemma wf_addOrIncreaseGodown:
  "wf_store db \<Longrightarrow> wf_store (snd (addOrIncreaseGodown godown f q db))"
  by (auto simp: addOrIncreaseGodown_def wf_addDoc_godownStock
      split: option.splits dest: wf_updateDoc_godownStock)

lemma wf_decreaseGodown:
  "wf_store db \<Longrightarrow> wf_store (snd (decreaseGodown godown f q db))"
  by (auto simp: decreaseGodown_def split: option.splits dest: wf_updateDoc_godownStock)

lemma wf_incoming_loop:
  "wf_store db \<Longrightarrow> wf_store (snd (incoming_loop godown its db))"
proof (induction its arbitrary: db)
  case Nil
  then show ?case by simp
next
  case (Cons it its)
  from wf_addOrIncreaseGodown[OF Cons.prems, of godown "feedId it" "quantity it"]
  show ?case
    by (cases "addOrIncreaseGodown godown (feedId it) (quantity it) db")
      (auto split: outcome.splits intro: Cons.IH)
qed

lemma wf_outgoing_loop:
  "wf_store db \<Longrightarrow> wf_store (outgoing_loop godown its db)"
proof (induction its arbitrary: db)
  case Nil
  then show ?case by simp
next
  case (Cons it its)
  from wf_decreaseGodown[OF Cons.prems, of godown "feedId it" "quantity it"]
  show ?case
    by (cases "decreaseGodown godown (feedId it) (quantity it) db")
      (auto split: outcome.splits intro: Cons.IH)
qed

lemma wf_submitTruckEntry:
  assumes "wf_store db"
  shows "wf_store (snd (submitTruckEntry godown truckNo type dests its db))"
proof (cases "truckNo = [] \<or> its = []")
  case True
  with assms show ?thesis by (simp add: submit_rejected)
next
  case False
  then have ne: "truckNo \<noteq> []" "its \<noteq> []" by simp_all
  let ?db1 = "addDoc_trucks (movementRecord truckNo type dests its) db"
  have wf1: "wf_store ?db1" using assms by (rule wf_addDoc_trucks)
  show ?thesis
    unfolding submitTruckEntry_unfold[OF ne]
    using wf1 wf_incoming_loop[OF wf1, of godown its] wf_outgoing_loop[OF wf1, of godown its]
    by (auto split: prod.splits outcome.splits intro: wf_addDoc_logs)
qed

lemma wf_transferFromSourceToDest:
  assumes "wf_store db"
  shows "wf_store (snd (transferFromSourceToDest srcNo destNo its db))"
proof (cases "srcNo \<noteq> [] \<and> destNo \<noteq> [] \<and> its \<noteq> [] \<and> firstMatch srcNo db \<noteq> None")
  case False
  with assms show ?thesis
    by (auto simp: transferFromSourceToDest_def firstMatch_def split: list.splits)
next
  case True
  then obtain s where ne: "srcNo \<noteq> []" "destNo \<noteq> []" "its \<noteq> []"
    and s: "firstMatch srcNo db = Some s" by auto
  obtain d where d: "firstMatch destNo (destResolved destNo db) = Some d"
    using dest_exists by blast
  have wf1: "wf_store (destResolved destNo db)" using assms by (rule wf_destResolved)
  have keep: "tid (t\<lparr>stock := x\<rparr>) = tid t" for t :: truck and x by simp
  show ?thesis
    unfolding transfer_unfold[OF ne s d]
    using wf1
    by (auto split: sum.splits option.splits
        intro!: wf_addDoc_logs wf_addDoc_directTransfers
        dest!: wf_updateDoc_trucks[rotated 2, OF _ _ keep])
qed

lemma wf_handleAddFeed: "wf_store db \<Longrightarrow> wf_store (handleAddFeed n c p q db)"
  by (auto simp: handleAddFeed_def addDoc_feeds_def addDoc_godownStock_def wf_store_def
      list_all_iff)

lemma wf_handleEditFeed: "wf_store db \<Longrightarrow> wf_store (snd (handleEditFeed fId p db))"
  by (auto simp: handleEditFeed_def updateDoc_feeds_def wf_store_def split: option.splits)

lemma wf_handleDeleteFeed: "wf_store db \<Longrightarrow> wf_store (handleDeleteFeed godown fId db)"
proof -
  have "wf_store (fold (\<lambda>s. deleteDoc_godownStock (gid s)) xs a)" if "wf_store a"
    for xs :: "godown_doc list" and a
    using that
  proof (induction xs arbitrary: a)
    case Nil
    then show ?case by simp
  next
    case (Cons x xs)
    from Cons.prems have "wf_store (deleteDoc_godownStock (gid x) a)"
      by (auto simp: wf_store_def deleteDoc_godownStock_def list_all_iff distinct_map_filter)
    from Cons.IH[OF this] show ?case by simp
  qed
  moreover assume "wf_store db"
  then have "wf_store (deleteDoc_feeds fId db)"
    by (simp add: wf_store_def deleteDoc_feeds_def)
  ultimately show ?thesis by (simp add: handleDeleteFeed_def)
qed

subsection \<open>The ledger names issued identifiers only\<close>

text \<open>
  The empty store's ledger names no feed at all, and no handler, whatever page state it
  reads, makes the ledger name a feed whose identifier has not been issued, as long as
  the feeds it is given carry issued identifiers (the pages offer the feeds of the
  catalog). The identifier a new feed receives is therefore one no ledger entry names.
\<close>

lemma refsIssued_empty_store: "refsIssued empty_store"
  by (simp add: refsIssued_def empty_store_def)

lemma refsIssued_mono:
  "refsIssued db \<Longrightarrow> godownStock db' = godownStock db \<Longrightarrow> nextId db \<le> nextId db'
     \<Longrightarrow> refsIssued db'"
  by (auto simp: refsIssued_def list_all_iff)

lemma refsIssued_same_feeds:
  assumes "refsIssued db" "map feedId (godownStock db') = map feedId (godownStock db)"
    "nextId db \<le> nextId db'"
  shows "refsIssued db'"
proof -
  have "\<forall>f \<in> set (map feedId (godownStock db)). f < nextId db"
    using assms(1) by (auto simp: refsIssued_def list_all_iff)
  with assms(2,3) have "\<forall>f \<in> set (map feedId (godownStock db')). f < nextId db'"
    by (metis order_less_le_trans)
  then show ?thesis by (auto simp: refsIssued_def list_all_iff)
qed

lemma refsIssued_addOrIncreaseGodown:
  assumes "refsIssued db" "f < nextId db"
  shows "refsIssued (snd (addOrIncreaseGodown godown f q db)) \<and>
         nextId db \<le> nextId (snd (addOrIncreaseGodown godown f q db))"
proof (cases "find (\<lambda>g. feedId g = f) godown")
  case None
  with assms show ?thesis
    by (auto simp: addOrIncreaseGodown_def addDoc_godownStock_def refsIssued_def list_all_iff)
next
  case (Some existing)
  show ?thesis
  proof (cases "updateDoc_godownStock (gid existing) (quantity existing + q) db")
    case None
    with Some assms show ?thesis by (simp add: addOrIncreaseGodown_def)
  next
    case u: (Some db')
    note fields = updateDoc_godownStock_fields[OF u]
    from fields have gs: "godownStock db' =
        map (\<lambda>d. if gid d = gid existing then d\<lparr>quantity := quantity existing + q\<rparr> else d)
          (godownStock db)" by blast
    from fields have nx: "nextId db' = nextId db" by blast
    have "map feedId (godownStock db') = map feedId (godownStock db)"
      unfolding gs by (rule map_feedId_write)
    from refsIssued_same_feeds[OF assms(1) this] nx have "refsIssued db'" by simp
    moreover have "addOrIncreaseGodown godown f q db = (Completed, db')"
      using Some u by (simp add: addOrIncreaseGodown_def)
    ultimately show ?thesis using nx by simp
  qed
qed

lemma refsIssued_decreaseGodown:
  assumes "refsIssued db"
  shows "refsIssued (snd (decreaseGodown godown f q db))"
proof -
  note fr = decreaseGodown_frame[of godown f q db]
  from fr have a: "map feedId (godownStock (snd (decreaseGodown godown f q db)))
                     = map feedId (godownStock db)" by blast
  from fr have b: "nextId db \<le> nextId (snd (decreaseGodown godown f q db))" by simp
  from refsIssued_same_feeds[OF assms a b] show ?thesis .
qed

lemma refsIssued_incoming_loop:
  assumes "refsIssued db" "list_all (\<lambda>i. feedId i < nextId db) its"
  shows "refsIssued (snd (incoming_loop godown its db))"
  using assms
proof (induction its arbitrary: db)
  case Nil
  then show ?case by simp
next
  case (Cons it its)
  from Cons.prems have f: "feedId it < nextId db" by simp
  note st = refsIssued_addOrIncreaseGodown[OF Cons.prems(1) f, of godown "quantity it"]
  obtain r db' where r: "addOrIncreaseGodown godown (feedId it) (quantity it) db = (r, db')"
    by (cases "addOrIncreaseGodown godown (feedId it) (quantity it) db")
  with st have a: "refsIssued db'" and n: "nextId db \<le> nextId db'" by simp_all
  from Cons.prems(2) n have b: "list_all (\<lambda>i. feedId i < nextId db') its"
    by (auto simp: list_all_iff)
  show ?case using r a Cons.IH[OF a b] by (cases r) simp_all
qed

lemma refsIssued_outgoing_loop:
  assumes "refsIssued db"
  shows "refsIssued (outgoing_loop godown its db)"
proof -
  note fr = outgoing_loop_frame[of godown its db]
  from fr have a: "map feedId (godownStock (outgoing_loop godown its db))
                     = map feedId (godownStock db)" by blast
  from fr have b: "nextId db \<le> nextId (outgoing_loop godown its db)" by simp
  from refsIssued_same_feeds[OF assms a b] show ?thesis .
qed

lemma refsIssued_addDoc_trucks: "refsIssued db \<Longrightarrow> refsIssued (addDoc_trucks t db)"
  by (auto simp: refsIssued_def addDoc_trucks_def list_all_iff)

lemma refsIssued_addDoc_logs: "refsIssued db \<Longrightarrow> refsIssued (addDoc_logs l db)"
  by (auto simp: refsIssued_def addDoc_logs_def list_all_iff)

lemma refsIssued_submitTruckEntry:
  assumes "refsIssued db" "list_all (\<lambda>i. feedId i < nextId db) its"
  shows "refsIssued (snd (submitTruckEntry godown truckNo type dests its db))"
proof (cases "truckNo = [] \<or> its = []")
  case True
  with assms show ?thesis by (simp add: submit_rejected)
next
  case False
  then have ne: "truckNo \<noteq> []" "its \<noteq> []" by simp_all
  let ?db1 = "addDoc_trucks (movementRecord truckNo type dests its) db"
  have r1: "refsIssued ?db1" using assms(1) by (rule refsIssued_addDoc_trucks)
  have i1: "list_all (\<lambda>i. feedId i < nextId ?db1) its"
    using assms(2) by (auto simp: list_all_iff addDoc_trucks_def)
  show ?thesis
    unfolding submitTruckEntry_unfold[OF ne]
    using r1 refsIssued_incoming_loop[OF r1 i1, of godown] refsIssued_outgoing_loop[OF r1, of godown its]
    by (auto split: prod.splits outcome.splits intro: refsIssued_addDoc_logs)
qed

lemma refsIssued_handleAddFeed: "refsIssued db \<Longrightarrow> refsIssued (handleAddFeed n c p q db)"
  by (auto simp: handleAddFeed_def addDoc_feeds_def addDoc_godownStock_def refsIssued_def
      list_all_iff)

lemma refsIssued_handleEditFeed: "refsIssued db \<Longrightarrow> refsIssued (snd (handleEditFeed fId p db))"
  by (auto simp: handleEditFeed_def updateDoc_feeds_def refsIssued_def split: option.splits)

lemma refsIssued_handleDeleteFeed:
  "refsIssued db \<Longrightarrow> refsIssued (handleDeleteFeed godown fId db)"
proof -
  assume r: "refsIssued db"
  have n: "nextId (fold (\<lambda>s. deleteDoc_godownStock (gid s)) xs a) = nextId a"
    for xs :: "godown_doc list" and a
    by (induction xs arbitrary: a) (simp_all add: deleteDoc_godownStock_def)
  have "nextId (handleDeleteFeed godown fId db) = nextId db"
    by (simp add: handleDeleteFeed_def n deleteDoc_feeds_def)
  with r show ?thesis
    by (auto simp: refsIssued_def list_all_iff handleDeleteFeed_ledger)
qed

lemma ledgerFrame_refl: "ledgerFrame db db"
  by (simp add: ledgerFrame_def)

lemma ledgerFrame_trans: "ledgerFrame a b \<Longrightarrow> ledgerFrame b c \<Longrightarrow> ledgerFrame a c"
  by (simp add: ledgerFrame_def)

lemma ledgerFrame_addDoc_trucks: "ledgerFrame db (addDoc_trucks t db)"
  by (simp add: ledgerFrame_def addDoc_trucks_def)

lemma ledgerFrame_addDoc_logs: "ledgerFrame db (addDoc_logs l db)"
  by (simp add: ledgerFrame_def addDoc_logs_def)

lemma ledgerFrame_addDoc_directTransfers: "ledgerFrame db (addDoc_directTransfers x y z db)"
  by (simp add: ledgerFrame_def addDoc_directTransfers_def)

lemma ledgerFrame_updateDoc_trucks:
  "updateDoc_trucks i upd db = Some db' \<Longrightarrow> ledgerFrame db db'"
  using updateDoc_trucks_fields[of i upd db db'] by (simp add: ledgerFrame_def)

lemma ledgerFrame_register: "ledgerFrame db (snd (registerSourceTruckLoad n xs db))"
proof (cases "n = [] \<or> xs = []")
  case True
  then show ?thesis by (auto simp: registerSourceTruckLoad_def ledgerFrame_refl)
next
  case False
  show ?thesis
  proof (cases "query_trucks n db")
    case Nil
    with False show ?thesis
      by (auto simp: registerSourceTruckLoad_def
          intro: ledgerFrame_trans[OF ledgerFrame_addDoc_trucks ledgerFrame_addDoc_logs])
  next
    case (Cons docRef rest)
    show ?thesis
    proof (cases "updateDoc_trucks (tid docRef)
                    (\<lambda>t. t\<lparr>truckNumber := n, stock := Some xs\<rparr>) db")
      case None
      with False Cons show ?thesis
        by (auto simp: registerSourceTruckLoad_def item_copy ledgerFrame_refl)
    next
      case (Some db1)
      from ledgerFrame_trans[OF ledgerFrame_updateDoc_trucks[OF Some] ledgerFrame_addDoc_logs]
      show ?thesis using False Cons Some
        by (auto simp: registerSourceTruckLoad_def item_copy)
    qed
  qed
qed

lemma ledgerFrame_transfer: "ledgerFrame db (snd (transferFromSourceToDest s d xs db))"
proof (cases "s \<noteq> [] \<and> d \<noteq> [] \<and> xs \<noteq> [] \<and> firstMatch s db \<noteq> None")
  case False
  then show ?thesis
    by (auto simp: transferFromSourceToDest_def firstMatch_def ledgerFrame_refl split: list.splits)
next
  case True
  then obtain src where ne: "s \<noteq> []" "d \<noteq> []" "xs \<noteq> []"
    and src: "firstMatch s db = Some src" by auto
  obtain dst where dst: "firstMatch d (destResolved d db) = Some dst"
    using dest_exists by blast
  have f1: "ledgerFrame db (destResolved d db)"
    by (simp add: destResolved_def ledgerFrame_refl ledgerFrame_addDoc_trucks split: option.splits)
  show ?thesis
  proof (cases "process_items xs (stockOf src) (stockOf dst)")
    case (Inl f)
    with f1 show ?thesis by (simp add: transfer_unfold[OF ne src dst])
  next
    case (Inr p)
    obtain ys zs where p: "p = (ys, zs)" by (cases p)
    show ?thesis
    proof (cases "updateDoc_trucks (tid src) (\<lambda>t. t\<lparr>stock := Some ys\<rparr>) (destResolved d db)")
      case None
      with Inr p f1 show ?thesis by (simp add: transfer_unfold[OF ne src dst])
    next
      case u1: (Some db2)
      note f2 = ledgerFrame_trans[OF f1 ledgerFrame_updateDoc_trucks[OF u1]]
      show ?thesis
      proof (cases "updateDoc_trucks (tid dst) (\<lambda>t. t\<lparr>stock := Some zs\<rparr>) db2")
        case None
        with Inr p u1 f2 show ?thesis by (simp add: transfer_unfold[OF ne src dst])
      next
        case (Some db3)
        note f3 = ledgerFrame_trans[OF f2 ledgerFrame_updateDoc_trucks[OF Some]]
        note f4 = ledgerFrame_trans[OF ledgerFrame_trans[OF f3 ledgerFrame_addDoc_directTransfers]
                    ledgerFrame_addDoc_logs]
        from f4 Inr p u1 Some show ?thesis by (simp add: transfer_unfold[OF ne src dst])
      qed
    qed
  qed
qed

lemma refsIssued_registerSourceTruckLoad:
  "refsIssued db \<Longrightarrow> refsIssued (snd (registerSourceTruckLoad n xs db))"
  using ledgerFrame_register[of db n xs] refsIssued_mono[of db "snd (registerSourceTruckLoad n xs db)"]
  by (simp add: ledgerFrame_def)

lemma refsIssued_transferFromSourceToDest:
  "refsIssued db \<Longrightarrow> refsIssued (snd (transferFromSourceToDest s d xs db))"
  using ledgerFrame_transfer[of db s d xs]
    refsIssued_mono[of db "snd (transferFromSourceToDest s d xs db)"]
  by (simp add: ledgerFrame_def)

end
